theory Spec2Isabelle
  imports Main "HOL-Library.Word"
begin

section \<open>Garage door monitor: on-demand Wi-Fi and MQTT\<close>

text \<open>
  A shallow embedding of the garage monitor sketch (\<^verbatim>\<open>src/unnamed/part_001\<close>).
  The sketch's globals are the fields of \<open>machine\<close>. The two library objects it drives
  (\<^verbatim>\<open>WiFi\<close> of the ESP8266 core and \<^verbatim>\<open>mqtt\<close> of PubSubClient) are not part of the
  repository: what the sketch can observe of them is the record \<open>hardware\<close>, every call
  the sketch makes on them is appended to \<open>trace\<close>, and every value that only the outside
  world decides (the pin level, each reading of \<^verbatim>\<open>millis()\<close>, whether a connection attempt
  or a transmission succeeds) is a field of \<open>tick_env\<close>, one record per call of
  \<^verbatim>\<open>setup()\<close> or \<^verbatim>\<open>loop()\<close>.
\<close>

subsection \<open>Configuration\<close>

text \<open>\<^verbatim>\<open>unsigned long\<close> and \<^verbatim>\<open>long\<close> are 32 bits wide on the ESP8266.\<close>

type_synonym ms = "32 word"

datatype pin_level = LOW | HIGH

definition ACTIVE_LOW :: bool where
  "ACTIVE_LOW = True"

definition DEBOUNCE_MS :: ms where
  "DEBOUNCE_MS = 80"

definition WINDOW_MS :: ms where
  "WINDOW_MS = 10 * 60 * 1000"

definition TOPIC_STATUS :: string where
  "TOPIC_STATUS = ''garage/door''"

definition TOPIC_ONLINE :: string where
  "TOPIC_ONLINE = ''garage/door/online''"

definition PUBLISH_ON_BOOT :: bool where
  "PUBLISH_ON_BOOT = True"

text \<open>
  \<^verbatim>\<open>secrets.h\<close> is not in the repository. The broker credentials it defines, and the two
  sources of the client identifier, are parameters of the model.
\<close>

record secrets =
  MQTT_USER :: string
  MQTT_PASS :: string
  DEVICE_ID :: "string option"
  chip_id_hex :: string

subsection \<open>Library calls, hardware and sketch state\<close>

datatype wifi_mode = WIFI_OFF | WIFI_STA

text \<open>
  One constructor per call the sketch makes on \<^verbatim>\<open>WiFi\<close> and \<^verbatim>\<open>mqtt\<close> to change or use
  the connection. \<open>MqttConnect cid creds topic qos retain msg ok\<close> is \<^verbatim>\<open>mqtt.connect\<close>
  with the client identifier, the credentials of the overload chosen, the four last-will
  arguments and the result; \<open>MqttPublish topic payload retained ok\<close> is
  \<^verbatim>\<open>mqtt.publish\<close> with its result; \<open>Println\<close> is one line of serial output
  (a \<^verbatim>\<open>print\<close> and the \<^verbatim>\<open>println\<close> that ends its line are one event). The calls that
  only configure or wait (\<^verbatim>\<open>Serial.begin\<close>, \<^verbatim>\<open>pinMode\<close>, \<^verbatim>\<open>mqtt.setServer\<close>,
  \<^verbatim>\<open>delay\<close>, \<^verbatim>\<open>yield\<close>) leave no event: time is what the clock readings say.
\<close>

datatype event =
    Println string
  | MqttDisconnect
  | WifiDisconnect bool
  | WifiPersistent bool
  | WifiMode wifi_mode
  | ForceSleepBegin
  | ForceSleepWake
  | SetAutoReconnect bool
  | WifiBegin
  | MqttConnect string "(string \<times> string) option" string nat bool string bool
  | MqttPublish string string bool bool
  | MqttLoop

text \<open>
  \<open>link_up\<close> is \<^verbatim>\<open>WiFi.status() == WL_CONNECTED\<close> and \<open>session_up\<close> is
  \<^verbatim>\<open>mqtt.connected()\<close>. Within one call of \<^verbatim>\<open>loop()\<close> they change only through the
  sketch's own calls; losses that the transport detects on its own are applied between
  two ticks (\<open>disturb\<close> below).
\<close>

record hardware =
  session_up :: bool
  link_up :: bool
  mode :: wifi_mode
  force_sleep :: bool
  persistent :: bool
  auto_reconnect :: bool

record machine =
  lastStable :: bool
  lastRead :: bool
  lastBounceAt :: ms
  dirty :: bool
  windowDeadline :: ms
  hw :: hardware
  trace :: "event list"

text \<open>
  The outside world during one call of \<^verbatim>\<open>setup()\<close> or \<^verbatim>\<open>loop()\<close>, in the order the sketch
  asks for it. \<open>wifi_polls\<close> lists what each evaluation of the waiting loop's condition in
  \<^verbatim>\<open>wifiEnsureConnected\<close> sees: the link status and, when the link is down, the clock.
\<close>

record tick_env =
  link_lost :: bool
  session_lost :: bool
  pin :: pin_level
  ms_bounce :: ms
  ms_debounce :: ms
  ms_start :: ms
  wifi_polls :: "(bool \<times> ms) list"
  connect_ok :: bool
  birth_ok :: bool
  publish_ok :: bool
  ms_publish :: ms
  ms_window :: ms
  reconnect_ok :: bool
  rebirth_ok :: bool

definition emit :: "event \<Rightarrow> machine \<Rightarrow> machine" where
  "emit ev s = s\<lparr>trace := trace s @ [ev]\<rparr>"

definition println :: "string \<Rightarrow> machine \<Rightarrow> machine" where
  "println str s = emit (Println str) s"

definition emitted :: "machine \<Rightarrow> machine \<Rightarrow> event list" where
  "emitted s s' = drop (length (trace s)) (trace s')"

subsection \<open>Helpers mapping the pin to the logical state\<close>

definition readLogical :: "pin_level \<Rightarrow> bool" where
  "readLogical v =
     (let active = (v = LOW);
          logicalOpen = (if ACTIVE_LOW then \<not> active else active)
      in logicalOpen)"

definition statusString :: "bool \<Rightarrow> string" where
  "statusString logicalOpen = (if logicalOpen then ''open'' else ''closed'')"

subsection \<open>Wi-Fi radio control\<close>

definition wifiRadioSleep :: "machine \<Rightarrow> machine" where
  "wifiRadioSleep s =
     (let s1 = emit MqttDisconnect (s\<lparr>hw := (hw s)\<lparr>session_up := False\<rparr>\<rparr>);
          s2 = emit (WifiDisconnect True) (s1\<lparr>hw := (hw s1)\<lparr>link_up := False\<rparr>\<rparr>);
          s3 = emit (WifiPersistent False) (s2\<lparr>hw := (hw s2)\<lparr>persistent := False\<rparr>\<rparr>);
          s4 = emit (WifiMode WIFI_OFF) (s3\<lparr>hw := (hw s3)\<lparr>mode := WIFI_OFF\<rparr>\<rparr>);
          s5 = emit ForceSleepBegin (s4\<lparr>hw := (hw s4)\<lparr>force_sleep := True\<rparr>\<rparr>)
      in s5)"

text \<open>
  The waiting loop of \<^verbatim>\<open>wifiEnsureConnected\<close>:
  \<^verbatim>\<open>while (WiFi.status() != WL_CONNECTED && (millis() - start) < timeoutMs) { delay(50); yield(); }\<close>
  followed by \<^verbatim>\<open>return WiFi.status() == WL_CONNECTED\<close>. Each list element is one evaluation
  of the condition; the status returned is the one the last evaluation saw. \<open>None\<close>: the
  loop has not left within the observations given.
\<close>

fun wifi_wait :: "ms \<Rightarrow> ms \<Rightarrow> (bool \<times> ms) list \<Rightarrow> bool option" where
  "wifi_wait start timeoutMs [] = None"
| "wifi_wait start timeoutMs ((up, now) # polls) =
     (if \<not> up \<and> now - start < timeoutMs then wifi_wait start timeoutMs polls else Some up)"

definition wifiEnsureConnected :: "ms \<Rightarrow> tick_env \<Rightarrow> machine \<Rightarrow> (bool \<times> machine) option" where
  "wifiEnsureConnected timeoutMs e s =
     (if link_up (hw s) then Some (True, s)
      else
        let s1 = emit ForceSleepWake (s\<lparr>hw := (hw s)\<lparr>force_sleep := False\<rparr>\<rparr>);
            s2 = emit (WifiMode WIFI_STA) (s1\<lparr>hw := (hw s1)\<lparr>mode := WIFI_STA\<rparr>\<rparr>);
            s3 = emit (WifiPersistent False) (s2\<lparr>hw := (hw s2)\<lparr>persistent := False\<rparr>\<rparr>);
            s4 = emit (SetAutoReconnect False) (s3\<lparr>hw := (hw s3)\<lparr>auto_reconnect := False\<rparr>\<rparr>);
            s5 = emit WifiBegin s4
        in case wifi_wait (ms_start e) timeoutMs (wifi_polls e) of
             None \<Rightarrow> None
           | Some up \<Rightarrow> Some (up, s5\<lparr>hw := (hw s5)\<lparr>link_up := up\<rparr>\<rparr>))"

subsection \<open>MQTT\<close>

definition makeClientId :: "secrets \<Rightarrow> string" where
  "makeClientId cfg =
     (case DEVICE_ID cfg of
        Some d \<Rightarrow> ''esp-'' @ d
      | None \<Rightarrow> ''esp-'' @ chip_id_hex cfg)"

text \<open>
  \<open>ok\<close> is the result of \<^verbatim>\<open>mqtt.connect\<close> and \<open>birth\<close> the (ignored) result of the
  announcement that follows a successful connect.
\<close>

definition mqttConnect :: "secrets \<Rightarrow> bool \<Rightarrow> bool \<Rightarrow> machine \<Rightarrow> bool \<times> machine" where
  "mqttConnect cfg ok birth s =
     (let cid = makeClientId cfg;
          willTopic = TOPIC_ONLINE;
          willMsg = ''false'';
          willRetain = True;
          willQos = (0::nat);
          creds = (if length (MQTT_USER cfg) > 0 \<or> length (MQTT_PASS cfg) > 0
                   then Some (MQTT_USER cfg, MQTT_PASS cfg) else None);
          s1 = emit (MqttConnect cid creds willTopic willQos willRetain willMsg ok)
                 (s\<lparr>hw := (hw s)\<lparr>session_up := ok\<rparr>\<rparr>);
          s2 = (if ok then emit (MqttPublish TOPIC_ONLINE ''true'' True birth) s1 else s1)
      in (ok, s2))"

text \<open>
  \<^verbatim>\<open>mqtt.publish\<close> returns false without a live session; with one, the transport decides
  (\<open>publish_ok\<close>).
\<close>

definition publishStatus :: "bool \<Rightarrow> tick_env \<Rightarrow> machine \<Rightarrow> bool \<times> machine" where
  "publishStatus logicalOpen e s =
     (let payload = statusString logicalOpen;
          ok = (session_up (hw s) \<and> publish_ok e);
          s1 = emit (MqttPublish TOPIC_STATUS payload True ok) s
      in if ok then (ok, s1\<lparr>windowDeadline := ms_publish e + WINDOW_MS, dirty := False\<rparr>)
         else (ok, s1))"

definition ensureMqttAndPublishIfDirty :: "secrets \<Rightarrow> tick_env \<Rightarrow> machine \<Rightarrow> machine option" where
  "ensureMqttAndPublishIfDirty cfg e s =
     (if \<not> dirty s then Some s
      else
        let s1 = (if \<not> link_up (hw s) then println ''WiFi: connecting...'' s else s)
        in case wifiEnsureConnected 8000 e s1 of
             None \<Rightarrow> None
           | Some (False, s2) \<Rightarrow> Some (println ''WiFi: connect failed'' s2)
           | Some (True, s2) \<Rightarrow>
               let (connected, s3) =
                     (if \<not> session_up (hw s2)
                      then mqttConnect cfg (connect_ok e) (birth_ok e)
                             (println ''MQTT: connecting...'' s2)
                      else (True, s2))
               in if \<not> connected then Some (println ''MQTT: connect failed'' s3)
                  else
                    let (ok, s4) = publishStatus (lastStable s3) e s3
                    in if ok
                       then Some (println (''MQTT: published status = '' @ statusString (lastStable s4)) s4)
                       else Some (println ''MQTT: publish failed'' s4))"

subsection \<open>The sketch: setup and loop\<close>

text \<open>
  The globals' initialisers, with the hardware as \<^verbatim>\<open>setup()\<close> finds it at power-up.
\<close>

definition power_up :: "hardware \<Rightarrow> machine" where
  "power_up h =
     \<lparr>lastStable = False, lastRead = False, lastBounceAt = 0, dirty = False,
      windowDeadline = 0, hw = h, trace = []\<rparr>"

definition setup_sketch :: "secrets \<Rightarrow> tick_env \<Rightarrow> hardware \<Rightarrow> machine option" where
  "setup_sketch cfg e h =
     (let s0 = println ''Garage monitor starting...'' (println [] (power_up h));
          r = readLogical (pin e);
          s1 = s0\<lparr>lastStable := r, lastRead := r\<rparr>;
          s2 = s1\<lparr>lastBounceAt := ms_bounce e\<rparr>;
          s3 = wifiRadioSleep s2
      in if PUBLISH_ON_BOOT
         then ensureMqttAndPublishIfDirty cfg e (s3\<lparr>dirty := True\<rparr>)
         else Some s3)"

text \<open>Section 1 of \<^verbatim>\<open>loop()\<close>: read the switch with debounce.\<close>

definition loop_debounce :: "tick_env \<Rightarrow> machine \<Rightarrow> machine" where
  "loop_debounce e s =
     (let nowRead = readLogical (pin e);
          s1 = (if nowRead \<noteq> lastRead s
                then s\<lparr>lastRead := nowRead, lastBounceAt := ms_bounce e\<rparr> else s)
      in if ms_debounce e - lastBounceAt s1 \<ge> DEBOUNCE_MS \<and> lastStable s1 \<noteq> lastRead s1
         then println (''door: '' @ statusString (lastRead s1))
                (s1\<lparr>lastStable := lastRead s1, dirty := True\<rparr>)
         else s1)"

text \<open>
  The test \<^verbatim>\<open>(long)(millis() - windowDeadline) >= 0\<close> of section 3: the difference of the
  two unsigned values, read as a signed 32-bit number.
\<close>

definition window_expired :: "ms \<Rightarrow> ms \<Rightarrow> bool" where
  "window_expired now deadline = (0 \<le> sint (now - deadline))"

text \<open>Section 3 of \<^verbatim>\<open>loop()\<close>: maintain the connection during the window.\<close>

definition loop_window :: "secrets \<Rightarrow> tick_env \<Rightarrow> machine \<Rightarrow> machine" where
  "loop_window cfg e s =
     (if session_up (hw s)
      then
        let s1 = emit MqttLoop s
        in if \<not> dirty s1 \<and> window_expired (ms_window e) (windowDeadline s1)
           then wifiRadioSleep (println ''Window expired. Sleeping Wi-Fi.'' s1)
           else s1
      else
        if link_up (hw s) \<and> windowDeadline s \<noteq> 0 \<and> ms_window e \<le> windowDeadline s
        then snd (mqttConnect cfg (reconnect_ok e) (rebirth_ok e)
                    (println ''MQTT: reconnecting during window...'' s))
        else s)"

definition loop :: "secrets \<Rightarrow> tick_env \<Rightarrow> machine \<Rightarrow> machine option" where
  "loop cfg e s =
     (case ensureMqttAndPublishIfDirty cfg e (loop_debounce e s) of
        None \<Rightarrow> None
      | Some s2 \<Rightarrow> Some (loop_window cfg e s2))"

text \<open>
  Between two ticks the link or the broker session may be lost without the sketch doing
  anything; the sketch sees it at its next status check.
\<close>

definition disturb :: "tick_env \<Rightarrow> machine \<Rightarrow> machine" where
  "disturb e s =
     s\<lparr>hw := (hw s)\<lparr>link_up := link_up (hw s) \<and> \<not> link_lost e,
                    session_up := session_up (hw s) \<and> \<not> session_lost e\<rparr>\<rparr>"

fun run :: "secrets \<Rightarrow> tick_env list \<Rightarrow> machine \<Rightarrow> machine option" where
  "run cfg [] s = Some s"
| "run cfg (e # es) s =
     (case loop cfg e (disturb e s) of
        None \<Rightarrow> None
      | Some s' \<Rightarrow> run cfg es s')"

text \<open>Power-up, \<^verbatim>\<open>setup()\<close>, then one \<^verbatim>\<open>loop()\<close> per further environment record.\<close>

definition boot_run :: "secrets \<Rightarrow> hardware \<Rightarrow> tick_env \<Rightarrow> tick_env list \<Rightarrow> machine option" where
  "boot_run cfg h e0 es =
     (case setup_sketch cfg e0 h of
        None \<Rightarrow> None
      | Some s0 \<Rightarrow> run cfg es s0)"

subsection \<open>What a trace shows\<close>

text \<open>
  A status publish is a call of \<^verbatim>\<open>mqtt.publish\<close> on the status topic, whatever its result;
  \<open>published\<close> lists the payloads of the calls that succeeded, oldest first.
\<close>

fun is_status_publish :: "event \<Rightarrow> bool" where
  "is_status_publish (MqttPublish topic payload retained ok) = (topic = TOPIC_STATUS)"
| "is_status_publish _ = False"

fun is_sent_status :: "event \<Rightarrow> bool" where
  "is_sent_status (MqttPublish topic payload retained ok) = (topic = TOPIC_STATUS \<and> ok)"
| "is_sent_status _ = False"

fun payload_of :: "event \<Rightarrow> string" where
  "payload_of (MqttPublish topic payload retained ok) = payload"
| "payload_of _ = []"

definition published :: "event list \<Rightarrow> string list" where
  "published evs = map payload_of (filter is_sent_status evs)"

text \<open>The line section 1 of \<^verbatim>\<open>loop()\<close> prints when it commits a new stable state.\<close>

fun is_door_report :: "event \<Rightarrow> bool" where
  "is_door_report (Println l) = (take 6 l = ''door: '')"
| "is_door_report _ = False"

definition door_reports :: "event list \<Rightarrow> event list" where
  "door_reports evs = filter is_door_report evs"

text \<open>
  The line section 3 of \<^verbatim>\<open>loop()\<close> prints right before its broker-session-only reconnect,
  and nowhere else.
\<close>

definition reconnect_mark :: event where
  "reconnect_mark = Println ''MQTT: reconnecting during window...''"


subsection \<open>What the outside world decides in one publish step\<close>

text \<open>
  Whether the three stages of \<^verbatim>\<open>ensureMqttAndPublishIfDirty\<close> succeed when it is entered in
  state \<open>s\<close> with environment \<open>e\<close>: the link is up or comes up within the wait, the
  session is up or the connect succeeds, the transmission succeeds.
\<close>

definition link_joins :: "tick_env \<Rightarrow> machine \<Rightarrow> bool" where
  "link_joins e s =
     (link_up (hw s) \<or> wifi_wait (ms_start e) 8000 (wifi_polls e) = Some True)"

definition session_joins :: "tick_env \<Rightarrow> machine \<Rightarrow> bool" where
  "session_joins e s = (session_up (hw s) \<or> connect_ok e)"

definition status_attempted :: "tick_env \<Rightarrow> machine \<Rightarrow> bool" where
  "status_attempted e s = (dirty s \<and> link_joins e s \<and> session_joins e s)"

definition status_sent :: "tick_env \<Rightarrow> machine \<Rightarrow> bool" where
  "status_sent e s = (status_attempted e s \<and> publish_ok e)"




subsection \<open>Concrete inputs\<close>

definition demo_cfg :: secrets where
  "demo_cfg =
     \<lparr>MQTT_USER = ''garage'', MQTT_PASS = [], DEVICE_ID = None, chip_id_hex = ''a1b2c3''\<rparr>"

text \<open>
  A tick at clock reading \<open>now\<close> with the pin at \<open>level\<close>, in which nothing is lost and
  every attempt succeeds; a link that has to be started is up at the second look.
\<close>

definition tick_at :: "ms \<Rightarrow> pin_level \<Rightarrow> tick_env" where
  "tick_at now level =
     \<lparr>link_lost = False, session_lost = False, pin = level, ms_bounce = now, ms_debounce = now,
      ms_start = now, wifi_polls = [(False, now), (True, now + 50)], connect_ok = True,
      birth_ok = True, publish_ok = True, ms_publish = now, ms_window = now,
      reconnect_ok = True, rebirth_ok = True\<rparr>"

definition radio_off :: hardware where
  "radio_off =
     \<lparr>session_up = False, link_up = False, mode = WIFI_OFF, force_sleep = True,
      persistent = False, auto_reconnect = False\<rparr>"

definition radio_linked :: hardware where
  "radio_linked =
     \<lparr>session_up = False, link_up = True, mode = WIFI_STA, force_sleep = False,
      persistent = False, auto_reconnect = False\<rparr>"

definition radio_live :: hardware where
  "radio_live = radio_linked\<lparr>session_up := True\<rparr>"

text \<open>
  The sketch with the door closed and settled since clock reading 100, with or without a
  status pending, a given window deadline and a given hardware state.
\<close>

definition door_closed :: "bool \<Rightarrow> ms \<Rightarrow> hardware \<Rightarrow> machine" where
  "door_closed pending deadline h =
     \<lparr>lastStable = False, lastRead = False, lastBounceAt = 100, dirty = pending,
      windowDeadline = deadline, hw = h, trace = []\<rparr>"

text \<open>
  Two runs from power-up with the radio off and the door closed. In both, \<^verbatim>\<open>setup()\<close>
  publishes at clock reading 1000 and the radio goes to sleep at the first tick after the
  window. \<open>rest_run\<close> stops there. In \<open>wrap_run\<close> the door then opens shortly before
  the 32-bit clock wraps, the new status is published at 4294367196, and the session is
  lost in the window while the broker refuses the reconnect. Ticks in which nothing
  changes are left out.
\<close>

definition rest_run :: "tick_env list" where
  "rest_run = [tick_at 700000 LOW]"

definition wrap_run :: "tick_env list" where
  "wrap_run =
     [tick_at 700000 LOW, tick_at 4294367100 HIGH, tick_at 4294367196 HIGH,
      (tick_at 4294367300 HIGH)\<lparr>session_lost := True, reconnect_ok := False\<rparr>]"

section \<open>Properties\<close>

subsection \<open>Traces\<close>

lemma emitted_append: "trace s' = trace s @ evs \<Longrightarrow> emitted s s' = evs"
  by (simp add: emitted_def)

lemma emitted_trans:
  "trace s1 = trace s @ emitted s s1 \<Longrightarrow> trace s2 = trace s1 @ emitted s1 s2 \<Longrightarrow>
     emitted s s2 = emitted s s1 @ emitted s1 s2 \<and> trace s2 = trace s @ emitted s s2"
proof -
  assume a: "trace s1 = trace s @ emitted s s1" and b: "trace s2 = trace s1 @ emitted s1 s2"
  have "trace s2 = trace s @ (emitted s s1 @ emitted s1 s2)"
    using a b by simp
  then have "emitted s s2 = emitted s s1 @ emitted s1 s2"
    by (rule emitted_append)
  then show ?thesis using a b by simp
qed

lemma published_append: "published (xs @ ys) = published xs @ published ys"
  by (simp add: published_def)

lemma sent_is_status: "is_sent_status ev = (is_status_publish ev \<and> is_sent_status ev)"
  by (cases ev) auto

lemma published_filter: "published (filter is_status_publish evs) = published evs"
  using sent_is_status by (simp add: published_def)

lemma door_reports_append: "door_reports (xs @ ys) = door_reports xs @ door_reports ys"
  by (simp add: door_reports_def)

subsection \<open>The publish step\<close>

lemmas ensure_defs = ensureMqttAndPublishIfDirty_def wifiEnsureConnected_def mqttConnect_def
  publishStatus_def println_def emit_def emitted_def Let_def
  link_joins_def session_joins_def status_attempted_def status_sent_def

lemma ensure_vars:
  assumes "ensureMqttAndPublishIfDirty cfg e s = Some s'"
  shows "lastStable s' = lastStable s \<and> lastRead s' = lastRead s \<and> lastBounceAt s' = lastBounceAt s"
  using assms
  by (auto simp: ensure_defs split: option.splits if_splits bool.splits prod.splits)

lemma ensure_dirty:
  assumes "ensureMqttAndPublishIfDirty cfg e s = Some s'"
  shows "dirty s' = (dirty s \<and> \<not> status_sent e s)"
  using assms
  by (auto simp: ensure_defs split: option.splits if_splits bool.splits prod.splits)

lemma ensure_deadline:
  assumes "ensureMqttAndPublishIfDirty cfg e s = Some s'"
  shows "windowDeadline s' = (if status_sent e s then ms_publish e + WINDOW_MS else windowDeadline s)"
  using assms
  by (auto simp: ensure_defs split: option.splits if_splits bool.splits prod.splits)

lemma ensure_trace:
  assumes "ensureMqttAndPublishIfDirty cfg e s = Some s'"
  shows "trace s' = trace s @ emitted s s'"
  using assms
  by (auto simp: ensure_defs split: option.splits if_splits bool.splits prod.splits)

lemma ensure_status:
  assumes "ensureMqttAndPublishIfDirty cfg e s = Some s'"
  shows "filter is_status_publish (emitted s s') =
     (if status_attempted e s
      then [MqttPublish TOPIC_STATUS (statusString (lastStable s)) True (publish_ok e)] else [])"
  using assms
  by (auto simp: ensure_defs TOPIC_STATUS_def TOPIC_ONLINE_def split: option.splits if_splits bool.splits prod.splits)

lemma ensure_no_sleep:
  assumes "ensureMqttAndPublishIfDirty cfg e s = Some s'"
  shows "ForceSleepBegin \<notin> set (emitted s s')"
  using assms
  by (auto simp: ensure_defs split: option.splits if_splits bool.splits prod.splits)


lemma ensure_returns:
  "(ensureMqttAndPublishIfDirty cfg e s \<noteq> None) =
     (\<not> dirty s \<or> link_up (hw s) \<or> wifi_wait (ms_start e) 8000 (wifi_polls e) \<noteq> None)"
  by (auto simp: ensure_defs split: option.splits if_splits bool.splits prod.splits)

lemma ensure_no_mark:
  assumes "ensureMqttAndPublishIfDirty cfg e s = Some s'"
  shows "reconnect_mark \<notin> set (emitted s s')"
  using assms
  by (auto simp: ensure_defs reconnect_mark_def split: option.splits if_splits bool.splits prod.splits)

lemma ensure_no_door:
  assumes "ensureMqttAndPublishIfDirty cfg e s = Some s'"
  shows "door_reports (emitted s s') = []"
  using assms
  by (auto simp: ensure_defs door_reports_def statusString_def split: option.splits if_splits bool.splits prod.splits)


lemma ensure_published:
  assumes "ensureMqttAndPublishIfDirty cfg e s = Some s'"
  shows "published (emitted s s') = (if status_sent e s then [statusString (lastStable s)] else [])"
  using published_filter [of "emitted s s'"]
  by (auto simp add: ensure_status [OF assms] published_def status_sent_def)

lemma publishStatus_deadline:
  "fst (publishStatus b e s) \<Longrightarrow>
     windowDeadline (snd (publishStatus b e s)) = ms_publish e + WINDOW_MS \<and> \<not> dirty (snd (publishStatus b e s))"
  by (auto simp add: publishStatus_def emit_def Let_def split: if_splits)

subsection \<open>The window step\<close>

lemmas window_defs = loop_window_def wifiRadioSleep_def mqttConnect_def println_def emit_def
  emitted_def Let_def

lemma window_vars:
  "lastStable (loop_window cfg e s) = lastStable s \<and> lastRead (loop_window cfg e s) = lastRead s
   \<and> lastBounceAt (loop_window cfg e s) = lastBounceAt s \<and> dirty (loop_window cfg e s) = dirty s
   \<and> windowDeadline (loop_window cfg e s) = windowDeadline s"
  by (simp add: window_defs)

lemma window_trace: "trace (loop_window cfg e s) = trace s @ emitted s (loop_window cfg e s)"
  by (simp add: window_defs)

lemma window_sleep:
  "(ForceSleepBegin \<in> set (emitted s (loop_window cfg e s))) =
     (session_up (hw s) \<and> \<not> dirty s \<and> window_expired (ms_window e) (windowDeadline s))"
  by (simp add: window_defs)

lemma window_status: "filter is_status_publish (emitted s (loop_window cfg e s)) = []"
  by (simp add: window_defs TOPIC_STATUS_def TOPIC_ONLINE_def)

lemma window_reconnect:
  "(Println ''MQTT: reconnecting during window...'' \<in> set (emitted s (loop_window cfg e s))) =
     (\<not> session_up (hw s) \<and> link_up (hw s) \<and> windowDeadline s \<noteq> 0 \<and> ms_window e \<le> windowDeadline s)"
  by (simp add: window_defs)

lemma window_published: "published (emitted s (loop_window cfg e s)) = []"
  using published_filter [of "emitted s (loop_window cfg e s)"]
  by (simp add: window_status published_def)

lemma window_no_door: "door_reports (emitted s (loop_window cfg e s)) = []"
  by (simp add: window_defs door_reports_def)

subsection \<open>The debounce step\<close>

lemmas debounce_defs = loop_debounce_def println_def emit_def emitted_def Let_def

lemma debounce_frame:
  "hw (loop_debounce e s) = hw s \<and> windowDeadline (loop_debounce e s) = windowDeadline s"
  by (simp add: debounce_defs)

lemma debounce_trace: "trace (loop_debounce e s) = trace s @ emitted s (loop_debounce e s)"
  by (simp add: debounce_defs)

lemma debounce_emitted:
  "emitted s (loop_debounce e s) =
     (if lastStable (loop_debounce e s) \<noteq> lastStable s
      then [Println (''door: '' @ statusString (lastStable (loop_debounce e s)))] else [])"
  by (auto simp add: debounce_defs)

lemma debounce_dirty:
  "dirty (loop_debounce e s) = (dirty s \<or> lastStable (loop_debounce e s) \<noteq> lastStable s)"
  by (auto simp add: debounce_defs)

lemma debounce_published: "published (emitted s (loop_debounce e s)) = []"
  by (simp add: debounce_emitted published_def)

lemma debounce_no_mark: "reconnect_mark \<notin> set (emitted s (loop_debounce e s))"
  by (simp add: debounce_emitted reconnect_mark_def)

lemma debounce_door:
  "door_reports (emitted s (loop_debounce e s)) =
     (if lastStable (loop_debounce e s) \<noteq> lastStable s
      then [Println (''door: '' @ statusString (lastStable (loop_debounce e s)))] else [])"
  by (simp add: debounce_emitted door_reports_def)

lemma debounce_status: "filter is_status_publish (emitted s (loop_debounce e s)) = []"
  by (simp add: debounce_emitted)

subsection \<open>One tick and many\<close>

lemma loop_Some:
  assumes "loop cfg e s = Some s'"
  obtains s2 where "ensureMqttAndPublishIfDirty cfg e (loop_debounce e s) = Some s2"
    and "s' = loop_window cfg e s2"
  using assms by (auto simp: loop_def split: option.splits)

lemma tick_emitted:
  assumes "ensureMqttAndPublishIfDirty cfg e (loop_debounce e s) = Some s2"
  shows "emitted s (loop_window cfg e s2) =
      emitted s (loop_debounce e s) @ emitted (loop_debounce e s) s2
        @ emitted s2 (loop_window cfg e s2)
    \<and> trace (loop_window cfg e s2) = trace s @ emitted s (loop_window cfg e s2)"
proof -
  have a: "emitted s s2 = emitted s (loop_debounce e s) @ emitted (loop_debounce e s) s2
      \<and> trace s2 = trace s @ emitted s s2"
    by (rule emitted_trans [OF debounce_trace ensure_trace [OF assms]])
  have b: "emitted s (loop_window cfg e s2) = emitted s s2 @ emitted s2 (loop_window cfg e s2)
      \<and> trace (loop_window cfg e s2) = trace s @ emitted s (loop_window cfg e s2)"
    by (rule emitted_trans [OF conjunct2 [OF a] window_trace])
  from a b show ?thesis by simp
qed

lemma tick_published:
  assumes "loop cfg e s = Some s'"
  shows "published (emitted s s') =
      (if dirty (loop_debounce e s) \<and> \<not> dirty s' then [statusString (lastStable s')] else [])
    \<and> lastStable s' = lastStable (loop_debounce e s)
    \<and> dirty s' = (dirty (loop_debounce e s) \<and> \<not> status_sent e (loop_debounce e s))
    \<and> trace s' = trace s @ emitted s s'"
proof -
  from assms obtain s2 where h: "ensureMqttAndPublishIfDirty cfg e (loop_debounce e s) = Some s2"
    and s': "s' = loop_window cfg e s2"
    by (rule loop_Some)
  have d: "dirty s' = (dirty (loop_debounce e s) \<and> \<not> status_sent e (loop_debounce e s))"
    by (simp add: s' window_vars ensure_dirty [OF h])
  have l: "lastStable s' = lastStable (loop_debounce e s)"
    by (simp add: s' window_vars ensure_vars [OF h])
  have sd: "status_sent e (loop_debounce e s) \<Longrightarrow> dirty (loop_debounce e s)"
    by (simp add: status_sent_def status_attempted_def)
  have p: "published (emitted s s') =
      (if status_sent e (loop_debounce e s) then [statusString (lastStable (loop_debounce e s))] else [])"
    by (simp add: s' tick_emitted [OF h] published_append debounce_published window_published
        ensure_published [OF h])
  have t: "trace s' = trace s @ emitted s s'"
    using tick_emitted [OF h] by (simp add: s')
  from d l p t sd show ?thesis by auto
qed

lemma disturb_frame:
  "trace (disturb e s) = trace s \<and> lastStable (disturb e s) = lastStable s
   \<and> lastRead (disturb e s) = lastRead s \<and> lastBounceAt (disturb e s) = lastBounceAt s
   \<and> dirty (disturb e s) = dirty s \<and> windowDeadline (disturb e s) = windowDeadline s"
  by (simp add: disturb_def)

lemma emitted_disturb: "emitted (disturb e s) s' = emitted s s'"
  by (simp add: emitted_def disturb_def)

lemma debounce_disturb:
  "lastStable (loop_debounce e (disturb e s)) = lastStable (loop_debounce e s)
   \<and> lastRead (loop_debounce e (disturb e s)) = lastRead (loop_debounce e s)
   \<and> lastBounceAt (loop_debounce e (disturb e s)) = lastBounceAt (loop_debounce e s)
   \<and> dirty (loop_debounce e (disturb e s)) = dirty (loop_debounce e s)"
  by (simp add: loop_debounce_def disturb_def println_def emit_def Let_def)

lemma run_trace:
  "run cfg es s = Some s' \<Longrightarrow> trace s' = trace s @ emitted s s'"
proof (induction es arbitrary: s)
  case Nil
  then show ?case by (simp add: emitted_def)
next
  case (Cons e es)
  from Cons.prems obtain s1 where l: "loop cfg e (disturb e s) = Some s1"
    and r: "run cfg es s1 = Some s'"
    by (auto split: option.splits)
  have a: "trace s1 = trace s @ emitted s s1"
    using tick_published [OF l] by (simp add: disturb_frame emitted_disturb)
  show ?case
    using emitted_trans [OF a Cons.IH [OF r]] by simp
qed

lemma run_emitted_Cons:
  assumes "loop cfg e (disturb e s) = Some s1" and "run cfg es s1 = Some s'"
  shows "emitted s s' = emitted s s1 @ emitted s1 s'"
proof -
  have a: "trace s1 = trace s @ emitted s s1"
    using tick_published [OF assms(1)] by (simp add: disturb_frame emitted_disturb)
  show ?thesis
    using emitted_trans [OF a run_trace [OF assms(2)]] by simp
qed

lemma tick_facts:
  assumes "loop cfg e s = Some s'"
  shows "trace s' = trace s @ emitted s s'"
    and "lastStable s' = lastStable (loop_debounce e s)"
    and "dirty s' = (dirty (loop_debounce e s) \<and> \<not> status_sent e (loop_debounce e s))"
    and "windowDeadline s' =
      (if status_sent e (loop_debounce e s) then ms_publish e + WINDOW_MS else windowDeadline s)"
    and "published (emitted s s') =
      (if status_sent e (loop_debounce e s) then [statusString (lastStable s')] else [])"
    and "door_reports (emitted s s') =
      (if lastStable s' \<noteq> lastStable s then [Println (''door: '' @ statusString (lastStable s'))] else [])"
    and "filter is_status_publish (emitted s s') =
      (if status_attempted e (loop_debounce e s)
       then [MqttPublish TOPIC_STATUS (statusString (lastStable s')) True (publish_ok e)] else [])"
    and "reconnect_mark \<in> set (emitted s s') \<Longrightarrow> windowDeadline s' \<noteq> 0"
proof -
  from assms obtain s2 where h: "ensureMqttAndPublishIfDirty cfg e (loop_debounce e s) = Some s2"
    and s': "s' = loop_window cfg e s2"
    by (rule loop_Some)
  note te = tick_emitted [OF h]
  show "trace s' = trace s @ emitted s s'"
    using te by (simp add: s')
  show l: "lastStable s' = lastStable (loop_debounce e s)"
    by (simp add: s' window_vars ensure_vars [OF h])
  show "dirty s' = (dirty (loop_debounce e s) \<and> \<not> status_sent e (loop_debounce e s))"
    by (simp add: s' window_vars ensure_dirty [OF h])
  show "windowDeadline s' =
      (if status_sent e (loop_debounce e s) then ms_publish e + WINDOW_MS else windowDeadline s)"
    by (simp add: s' window_vars ensure_deadline [OF h] debounce_frame)
  show "published (emitted s s') =
      (if status_sent e (loop_debounce e s) then [statusString (lastStable s')] else [])"
    using l by (simp add: s' te published_append debounce_published window_published
        ensure_published [OF h])
  show "door_reports (emitted s s') =
      (if lastStable s' \<noteq> lastStable s then [Println (''door: '' @ statusString (lastStable s'))] else [])"
    using l by (simp add: s' te door_reports_append debounce_door window_no_door
        ensure_no_door [OF h])
  show "filter is_status_publish (emitted s s') =
      (if status_attempted e (loop_debounce e s)
       then [MqttPublish TOPIC_STATUS (statusString (lastStable s')) True (publish_ok e)] else [])"
    using l by (simp add: s' te debounce_status window_status ensure_status [OF h])
  show "windowDeadline s' \<noteq> 0" if "reconnect_mark \<in> set (emitted s s')"
  proof -
    from that have "reconnect_mark \<in> set (emitted s2 (loop_window cfg e s2))"
      using debounce_no_mark [of s e] ensure_no_mark [OF h] by (simp add: s' te)
    then show ?thesis
      by (simp add: reconnect_mark_def window_reconnect s' window_vars)
  qed
qed

lemma run_invariant:
  assumes "run cfg es s = Some s'" and "I s"
    and "\<And>e s s'. I s \<Longrightarrow> loop cfg e (disturb e s) = Some s' \<Longrightarrow> I s'"
  shows "I s'"
  using assms(1,2)
proof (induction es arbitrary: s)
  case Nil
  then show ?case by simp
next
  case (Cons e es)
  from Cons.prems(1) obtain s1 where l: "loop cfg e (disturb e s) = Some s1"
    and r: "run cfg es s1 = Some s'"
    by (auto split: option.splits)
  show ?case
    by (rule Cons.IH [OF r assms(3) [OF Cons.prems(2) l]])
qed

lemma setup_Some:
  assumes "setup_sketch cfg e h = Some s0"
  obtains s3 where "ensureMqttAndPublishIfDirty cfg e s3 = Some s0"
    and "dirty s3" and "\<not> link_up (hw s3)" and "\<not> session_up (hw s3)"
    and "lastStable s3 = readLogical (pin e)" and "lastRead s3 = readLogical (pin e)"
    and "lastBounceAt s3 = ms_bounce e" and "windowDeadline s3 = 0"
    and "trace s3 = [Println [], Println ''Garage monitor starting...'', MqttDisconnect,
      WifiDisconnect True, WifiPersistent False, WifiMode WIFI_OFF, ForceSleepBegin]"
proof -
  let ?s3 = "(wifiRadioSleep
     ((println ''Garage monitor starting...'' (println [] (power_up h)))
        \<lparr>lastStable := readLogical (pin e), lastRead := readLogical (pin e),
         lastBounceAt := ms_bounce e\<rparr>))\<lparr>dirty := True\<rparr>"
  have "ensureMqttAndPublishIfDirty cfg e ?s3 = Some s0"
    using assms by (simp add: setup_sketch_def PUBLISH_ON_BOOT_def Let_def)
  moreover have "dirty ?s3" "\<not> link_up (hw ?s3)" "\<not> session_up (hw ?s3)"
    "lastStable ?s3 = readLogical (pin e)" "lastRead ?s3 = readLogical (pin e)"
    "lastBounceAt ?s3 = ms_bounce e" "windowDeadline ?s3 = 0"
    "trace ?s3 = [Println [], Println ''Garage monitor starting...'', MqttDisconnect,
      WifiDisconnect True, WifiPersistent False, WifiMode WIFI_OFF, ForceSleepBegin]"
    by (simp_all add: wifiRadioSleep_def println_def emit_def power_up_def Let_def)
  ultimately show ?thesis by (rule that)
qed

lemma setup_facts:
  assumes "setup_sketch cfg e h = Some s0"
  shows "lastStable s0 = readLogical (pin e)"
    and "door_reports (trace s0) = []"
    and "reconnect_mark \<notin> set (trace s0)"
    and "published (trace s0) = (if dirty s0 then [] else [statusString (lastStable s0)])"
    and "dirty s0 \<Longrightarrow> windowDeadline s0 = 0"
    and "\<forall>ev \<in> set (filter is_status_publish (trace s0)).
           ev = MqttPublish TOPIC_STATUS (statusString (lastStable s0)) True (publish_ok e)"
proof -
  from assms obtain s3 where h: "ensureMqttAndPublishIfDirty cfg e s3 = Some s0"
    and d: "dirty s3" and st: "lastStable s3 = readLogical (pin e)" and w: "windowDeadline s3 = 0"
    and t: "trace s3 = [Println [], Println ''Garage monitor starting...'', MqttDisconnect,
      WifiDisconnect True, WifiPersistent False, WifiMode WIFI_OFF, ForceSleepBegin]"
    by (rule setup_Some)
  have tr: "trace s0 = trace s3 @ emitted s3 s0"
    by (rule ensure_trace [OF h])
  show l: "lastStable s0 = readLogical (pin e)"
    using ensure_vars [OF h] st by simp
  show "door_reports (trace s0) = []"
    using ensure_no_door [OF h] by (simp add: tr door_reports_append) (simp add: t door_reports_def)
  show "reconnect_mark \<notin> set (trace s0)"
    using ensure_no_mark [OF h] by (simp add: tr) (simp add: t reconnect_mark_def)
  have p3: "published (trace s3) = []"
    by (simp add: t published_def)
  show "published (trace s0) = (if dirty s0 then [] else [statusString (lastStable s0)])"
    using ensure_published [OF h] ensure_dirty [OF h] d l st
    by (simp add: tr published_append p3)
  show "windowDeadline s0 = 0" if "dirty s0"
    using that ensure_deadline [OF h] ensure_dirty [OF h] d w by simp
  have f3: "filter is_status_publish (trace s3) = []"
    by (simp add: t)
  show "\<forall>ev \<in> set (filter is_status_publish (trace s0)).
           ev = MqttPublish TOPIC_STATUS (statusString (lastStable s0)) True (publish_ok e)"
    using ensure_status [OF h] l st by (simp add: tr f3)
qed

lemma boot_run_Some:
  assumes "boot_run cfg h e0 es = Some s"
  obtains s0 where "setup_sketch cfg e0 h = Some s0" and "run cfg es s0 = Some s"
  using assms by (auto simp: boot_run_def split: option.splits)

text \<open>
  The wait for the link ends as soon as one look sees the link up or the timeout passed,
  and a tick returns whenever its wait does.
\<close>

lemma wifi_wait_returns:
  "(\<exists>p \<in> set polls. fst p \<or> timeoutMs \<le> snd p - start) \<Longrightarrow>
     wifi_wait start timeoutMs polls \<noteq> None"
  by (induction start timeoutMs polls rule: wifi_wait.induct) (auto simp: not_less)

lemma loop_returns:
  "(loop cfg e s \<noteq> None) =
     (\<not> dirty (loop_debounce e s) \<or> link_up (hw s)
      \<or> wifi_wait (ms_start e) 8000 (wifi_polls e) \<noteq> None)"
  using ensure_returns [of cfg e "loop_debounce e s"]
  by (auto simp add: loop_def debounce_frame split: option.splits)

subsection \<open>Evaluation on concrete inputs\<close>

lemmas demo_defs = demo_cfg_def tick_at_def radio_off_def radio_linked_def radio_live_def
  door_closed_def rest_run_def wrap_run_def

lemmas eval_defs = loop_def loop_debounce_def loop_window_def ensureMqttAndPublishIfDirty_def
  wifiEnsureConnected_def mqttConnect_def publishStatus_def wifiRadioSleep_def println_def
  emit_def emitted_def readLogical_def statusString_def makeClientId_def
  ACTIVE_LOW_def DEBOUNCE_MS_def WINDOW_MS_def TOPIC_STATUS_def TOPIC_ONLINE_def
  window_expired_def Let_def

lemmas run_defs = boot_run_def setup_sketch_def power_up_def disturb_def PUBLISH_ON_BOOT_def
  published_def door_reports_def reconnect_mark_def

subsection \<open>Radio teardown\<close>

text \<open>
  C8 (idempotent teardown). From any state \<^verbatim>\<open>wifiRadioSleep\<close> drops the broker session
  and the link, switches the radio off and puts it to sleep; it has no failing branch and
  leaves the sketch's own variables alone. A second call in a row makes the same five
  library calls again and changes nothing: apart from the record of those calls, the
  state after two calls is the state after one.
\<close>

theorem wifiRadioSleep_idempotent:
  "hw (wifiRadioSleep s) =
     (hw s)\<lparr>session_up := False, link_up := False, mode := WIFI_OFF,
            force_sleep := True, persistent := False\<rparr>
   \<and> (wifiRadioSleep s)\<lparr>hw := hw s, trace := trace s\<rparr> = s
   \<and> emitted s (wifiRadioSleep s) =
       [MqttDisconnect, WifiDisconnect True, WifiPersistent False, WifiMode WIFI_OFF,
        ForceSleepBegin]
   \<and> hw (wifiRadioSleep (wifiRadioSleep s)) = hw (wifiRadioSleep s)
   \<and> (wifiRadioSleep (wifiRadioSleep s))\<lparr>trace := trace (wifiRadioSleep s)\<rparr> = wifiRadioSleep s"
  by (simp add: wifiRadioSleep_def emit_def emitted_def Let_def)

subsection \<open>Broker session establishment\<close>

text \<open>
  C6 (availability birth/will pairing). Every call of \<^verbatim>\<open>mqttConnect\<close> registers, in the
  connect itself, the last will \<open>''false''\<close> on the availability topic, retained, with or
  without credentials. When the connect succeeds, and only then, the next library call
  publishes \<open>''true''\<close> on the same topic, retained (the sketch does not look at the
  result of that call). The two payloads differ.
\<close>

theorem mqttConnect_birth_will_pairing:
  "\<exists>creds will announce.
     emitted s (snd (mqttConnect cfg ok birth s)) =
       MqttConnect (makeClientId cfg) creds TOPIC_ONLINE 0 True will ok
         # (if ok then [MqttPublish TOPIC_ONLINE announce True birth] else [])
     \<and> will = ''false'' \<and> announce = ''true'' \<and> announce \<noteq> will
     \<and> fst (mqttConnect cfg ok birth s) = ok
     \<and> session_up (hw (snd (mqttConnect cfg ok birth s))) = ok"
  by (simp add: mqttConnect_def emit_def emitted_def Let_def)

subsection \<open>Debounce\<close>

lemma debounce_fields:
  "lastRead (loop_debounce e s) = readLogical (pin e)
   \<and> lastBounceAt (loop_debounce e s) =
       (if readLogical (pin e) \<noteq> lastRead s then ms_bounce e else lastBounceAt s)
   \<and> lastStable (loop_debounce e s) =
       (if DEBOUNCE_MS \<le> ms_debounce e
              - (if readLogical (pin e) \<noteq> lastRead s then ms_bounce e else lastBounceAt s)
           \<and> lastStable s \<noteq> readLogical (pin e)
        then readLogical (pin e) else lastStable s)"
  by (auto simp add: loop_debounce_def println_def emit_def Let_def)

lemma tick_debounce:
  assumes "loop cfg e (disturb e s) = Some s'"
  shows "lastRead s' = readLogical (pin e)"
    and "lastBounceAt s' = (if readLogical (pin e) \<noteq> lastRead s then ms_bounce e else lastBounceAt s)"
    and "lastStable s' =
       (if DEBOUNCE_MS \<le> ms_debounce e
              - (if readLogical (pin e) \<noteq> lastRead s then ms_bounce e else lastBounceAt s)
           \<and> lastStable s \<noteq> readLogical (pin e)
        then readLogical (pin e) else lastStable s)"
    and "door_reports (emitted s s') =
       (if lastStable s' \<noteq> lastStable s
        then [Println (''door: '' @ statusString (lastStable s'))] else [])"
proof -
  from assms obtain s2 where h: "ensureMqttAndPublishIfDirty cfg e (loop_debounce e (disturb e s)) = Some s2"
    and s': "s' = loop_window cfg e s2"
    by (rule loop_Some)
  have v: "lastRead s' = lastRead (loop_debounce e (disturb e s))"
    "lastBounceAt s' = lastBounceAt (loop_debounce e (disturb e s))"
    "lastStable s' = lastStable (loop_debounce e (disturb e s))"
    by (simp_all add: s' window_vars ensure_vars [OF h])
  show "lastRead s' = readLogical (pin e)"
    using v(1) by (simp add: debounce_fields)
  show "lastBounceAt s' = (if readLogical (pin e) \<noteq> lastRead s then ms_bounce e else lastBounceAt s)"
    using v(2) by (simp add: debounce_fields disturb_frame)
  show "lastStable s' =
       (if DEBOUNCE_MS \<le> ms_debounce e
              - (if readLogical (pin e) \<noteq> lastRead s then ms_bounce e else lastBounceAt s)
           \<and> lastStable s \<noteq> readLogical (pin e)
        then readLogical (pin e) else lastStable s)"
    using v(3) by (simp add: debounce_fields disturb_frame)
  show "door_reports (emitted s s') =
       (if lastStable s' \<noteq> lastStable s
        then [Println (''door: '' @ statusString (lastStable s'))] else [])"
    using tick_facts(6) [OF assms] by (simp add: emitted_disturb disturb_frame)
qed

lemma bounces_ignored:
  assumes "run cfg es s = Some s'"
    and "\<forall>i j. 0 < i \<and> i \<le> j \<and> j < length es
          \<and> readLogical (pin (es ! (i - 1))) = lastStable s
          \<and> (\<forall>k. i \<le> k \<and> k \<le> j \<longrightarrow> readLogical (pin (es ! k)) \<noteq> lastStable s)
        \<longrightarrow> ms_debounce (es ! j) - ms_bounce (es ! i) < DEBOUNCE_MS"
    and "\<forall>j. j < length es \<and> (\<forall>k. k \<le> j \<longrightarrow> readLogical (pin (es ! k)) \<noteq> lastStable s)
        \<longrightarrow> ms_debounce (es ! j)
              - (if lastRead s = lastStable s then ms_bounce (es ! 0) else lastBounceAt s)
            < DEBOUNCE_MS"
  shows "lastStable s' = lastStable s \<and> door_reports (emitted s s') = []"
  using assms
proof (induction es arbitrary: s)
  case Nil
  then show ?case by (simp add: emitted_def door_reports_def)
next
  case (Cons e es)
  let ?b = "lastStable s" and ?r = "readLogical (pin e)"
  let ?t0 = "if lastRead s = ?b then ms_bounce e else lastBounceAt s"
  from Cons.prems(1) obtain s1 where l: "loop cfg e (disturb e s) = Some s1"
    and r: "run cfg es s1 = Some s'"
    by (auto split: option.splits)
  note d = tick_debounce [OF l]
  have stamp: "lastBounceAt s1 = ?t0" if "?r \<noteq> ?b"
    using that d(2) by auto
  have short0: "ms_debounce e - ?t0 < DEBOUNCE_MS" if "?r \<noteq> ?b"
  proof -
    have "0 < length (e # es) \<and> (\<forall>k. k \<le> 0 \<longrightarrow> readLogical (pin ((e # es) ! k)) \<noteq> ?b)"
      using that by simp
    with Cons.prems(3) have "ms_debounce ((e # es) ! 0)
        - (if lastRead s = ?b then ms_bounce ((e # es) ! 0) else lastBounceAt s) < DEBOUNCE_MS"
      by blast
    then show ?thesis by (simp split: if_splits)
  qed
  have keep: "lastStable s1 = ?b"
  proof (cases "?r = ?b")
    case True
    then show ?thesis using d(3) by simp
  next
    case False
    from stamp [OF False] d(2) short0 [OF False] show ?thesis
      using d(3) by (auto simp add: not_le)
  qed
  have h1: "\<forall>i j. 0 < i \<and> i \<le> j \<and> j < length es
          \<and> readLogical (pin (es ! (i - 1))) = lastStable s1
          \<and> (\<forall>k. i \<le> k \<and> k \<le> j \<longrightarrow> readLogical (pin (es ! k)) \<noteq> lastStable s1)
        \<longrightarrow> ms_debounce (es ! j) - ms_bounce (es ! i) < DEBOUNCE_MS"
  proof (intro allI impI)
    fix i j
    assume a: "0 < i \<and> i \<le> j \<and> j < length es
          \<and> readLogical (pin (es ! (i - 1))) = lastStable s1
          \<and> (\<forall>k. i \<le> k \<and> k \<le> j \<longrightarrow> readLogical (pin (es ! k)) \<noteq> lastStable s1)"
    have "0 < Suc i \<and> Suc i \<le> Suc j \<and> Suc j < length (e # es)
          \<and> readLogical (pin ((e # es) ! (Suc i - 1))) = ?b
          \<and> (\<forall>k. Suc i \<le> k \<and> k \<le> Suc j \<longrightarrow> readLogical (pin ((e # es) ! k)) \<noteq> ?b)"
    proof (intro conjI allI impI)
      show "readLogical (pin ((e # es) ! (Suc i - 1))) = ?b"
        using a keep by (cases i) simp_all
      fix k assume k: "Suc i \<le> k \<and> k \<le> Suc j"
      then obtain k' where "k = Suc k'" by (cases k) auto
      with k a keep show "readLogical (pin ((e # es) ! k)) \<noteq> ?b" by simp
    qed (use a in simp_all)
    with Cons.prems(2) have "ms_debounce ((e # es) ! Suc j) - ms_bounce ((e # es) ! Suc i) < DEBOUNCE_MS"
      by blast
    then show "ms_debounce (es ! j) - ms_bounce (es ! i) < DEBOUNCE_MS" by simp
  qed
  have h2: "\<forall>j. j < length es \<and> (\<forall>k. k \<le> j \<longrightarrow> readLogical (pin (es ! k)) \<noteq> lastStable s1)
        \<longrightarrow> ms_debounce (es ! j)
              - (if lastRead s1 = lastStable s1 then ms_bounce (es ! 0) else lastBounceAt s1)
            < DEBOUNCE_MS"
  proof (intro allI impI)
    fix j
    assume a: "j < length es \<and> (\<forall>k. k \<le> j \<longrightarrow> readLogical (pin (es ! k)) \<noteq> lastStable s1)"
    show "ms_debounce (es ! j)
              - (if lastRead s1 = lastStable s1 then ms_bounce (es ! 0) else lastBounceAt s1)
            < DEBOUNCE_MS"
    proof (cases "?r = ?b")
      case True
      have "0 < Suc 0 \<and> Suc 0 \<le> Suc j \<and> Suc j < length (e # es)
          \<and> readLogical (pin ((e # es) ! (Suc 0 - 1))) = ?b
          \<and> (\<forall>k. Suc 0 \<le> k \<and> k \<le> Suc j \<longrightarrow> readLogical (pin ((e # es) ! k)) \<noteq> ?b)"
      proof (intro conjI allI impI)
        show "readLogical (pin ((e # es) ! (Suc 0 - 1))) = ?b"
          using True by simp
        fix k assume k: "Suc 0 \<le> k \<and> k \<le> Suc j"
        then obtain k' where "k = Suc k'" by (cases k) auto
        with k a keep show "readLogical (pin ((e # es) ! k)) \<noteq> ?b" by simp
      qed (use a in simp_all)
      with Cons.prems(2)
      have "ms_debounce ((e # es) ! Suc j) - ms_bounce ((e # es) ! Suc 0) < DEBOUNCE_MS"
        by blast
      then show ?thesis
        using True d(1) keep by simp
    next
      case False
      have "Suc j < length (e # es)
          \<and> (\<forall>k. k \<le> Suc j \<longrightarrow> readLogical (pin ((e # es) ! k)) \<noteq> ?b)"
      proof (intro conjI allI impI)
        fix k assume k: "k \<le> Suc j"
        show "readLogical (pin ((e # es) ! k)) \<noteq> ?b"
        proof (cases k)
          case 0
          then show ?thesis using False by simp
        next
          case (Suc k')
          with k a keep show ?thesis by simp
        qed
      qed (use a in simp)
      with Cons.prems(3)
      have "ms_debounce ((e # es) ! Suc j)
          - (if lastRead s = ?b then ms_bounce ((e # es) ! 0) else lastBounceAt s) < DEBOUNCE_MS"
        by blast
      then show ?thesis
        using False d(1) keep stamp [OF False] by (simp split: if_splits)
    qed
  qed
  have ih: "lastStable s' = lastStable s1 \<and> door_reports (emitted s1 s') = []"
    by (rule Cons.IH [OF r h1 h2])
  have "door_reports (emitted s s1) = []"
    using d(4) keep by simp
  with ih keep show ?case
    by (simp add: run_emitted_Cons [OF l r] door_reports_append)
qed

lemma settled_stays:
  assumes "run cfg es s = Some s'"
    and "\<forall>e \<in> set es. readLogical (pin e) = lastStable s"
  shows "lastStable s' = lastStable s \<and> door_reports (emitted s s') = []"
proof (rule bounces_ignored [OF assms(1)])
  show "\<forall>i j. 0 < i \<and> i \<le> j \<and> j < length es
          \<and> readLogical (pin (es ! (i - 1))) = lastStable s
          \<and> (\<forall>k. i \<le> k \<and> k \<le> j \<longrightarrow> readLogical (pin (es ! k)) \<noteq> lastStable s)
        \<longrightarrow> ms_debounce (es ! j) - ms_bounce (es ! i) < DEBOUNCE_MS"
    using assms(2) by (metis le_refl nth_mem)
  show "\<forall>j. j < length es \<and> (\<forall>k. k \<le> j \<longrightarrow> readLogical (pin (es ! k)) \<noteq> lastStable s)
        \<longrightarrow> ms_debounce (es ! j)
              - (if lastRead s = lastStable s then ms_bounce (es ! 0) else lastBounceAt s)
            < DEBOUNCE_MS"
    using assms(2) by (metis le_refl nth_mem)
qed

lemma sustained_commits_once:
  assumes "run cfg es s = Some s'"
    and "\<forall>e \<in> set es. readLogical (pin e) = r"
    and "r \<noteq> lastStable s"
    and "\<exists>j. j < length es \<and> DEBOUNCE_MS \<le> ms_debounce (es ! j)
            - (if lastRead s = r then lastBounceAt s else ms_bounce (es ! 0))"
  shows "lastStable s' = r \<and> door_reports (emitted s s') = [Println (''door: '' @ statusString r)]"
  using assms
proof (induction es arbitrary: s)
  case Nil
  then show ?case by simp
next
  case (Cons e es)
  let ?t0 = "if lastRead s = r then lastBounceAt s else ms_bounce e"
  from Cons.prems(1) obtain s1 where l: "loop cfg e (disturb e s) = Some s1"
    and rn: "run cfg es s1 = Some s'"
    by (auto split: option.splits)
  note d = tick_debounce [OF l]
  from Cons.prems(2) have re: "readLogical (pin e) = r" and rest: "\<forall>e \<in> set es. readLogical (pin e) = r"
    by simp_all
  have stamp: "lastBounceAt s1 = ?t0" and read1: "lastRead s1 = r"
    using d(1,2) re by auto
  show ?case
  proof (cases "DEBOUNCE_MS \<le> ms_debounce e - ?t0")
    case True
    then have st1: "lastStable s1 = r"
      using d(3) re Cons.prems(3) by auto
    have rep: "door_reports (emitted s s1) = [Println (''door: '' @ statusString r)]"
      using d(4) st1 Cons.prems(3) by simp
    have "lastStable s' = lastStable s1 \<and> door_reports (emitted s1 s') = []"
      using rest st1 by (intro settled_stays [OF rn]) simp
    with st1 rep show ?thesis
      by (simp add: run_emitted_Cons [OF l rn] door_reports_append)
  next
    case False
    then have st1: "lastStable s1 = lastStable s"
      using d(3) re by auto
    have rep: "door_reports (emitted s s1) = []"
      using d(4) st1 by simp
    from Cons.prems(4) obtain j where j: "j < length (e # es)"
      and jc: "DEBOUNCE_MS \<le> ms_debounce ((e # es) ! j) - ?t0"
      by (auto split: if_splits)
    from False jc obtain j' where jj: "j = Suc j'"
      by (cases j) auto
    have ex: "\<exists>j. j < length es \<and> DEBOUNCE_MS \<le> ms_debounce (es ! j)
            - (if lastRead s1 = r then lastBounceAt s1 else ms_bounce (es ! 0))"
      using j jc jj stamp read1 by auto
    have ne: "r \<noteq> lastStable s1"
      using st1 Cons.prems(3) by simp
    have "lastStable s' = r \<and> door_reports (emitted s1 s') = [Println (''door: '' @ statusString r)]"
      by (rule Cons.IH [OF rn rest ne ex])
    with rep show ?thesis
      by (simp add: run_emitted_Cons [OF l rn] door_reports_append)
  qed
qed

text \<open>
  C2 (debounce stability), in three parts, over the reads the sketch takes, one per tick,
  and the clock readings it takes with them.
  \<^item> Start with the raw state equal to the stable state. If every bounce, from the first
    read that differs from the stable state to any read of the same stretch of differing
    reads, spans less than \<open>DEBOUNCE_MS\<close> between the stamp of its first read and the
    check of that later read, then no stable-state change is reported and the stable
    state at the end is the one at the start.
  \<^item> If every read shows the level \<open>r\<close>, \<open>r\<close> differs from the stable state, and at
    some tick the level has lasted \<open>DEBOUNCE_MS\<close> or more since it was first stamped,
    then exactly one stable-state change is reported, to \<open>r\<close>.
  \<^item> In a tick that changes the stable state, the new stable state is the raw state just
    read, and the check of that tick sees \<open>DEBOUNCE_MS\<close> or more since
    \<open>lastBounceAt\<close>.
\<close>

theorem debounce_stability:
  "(run cfg es1 s1 = Some s1' \<and> lastRead s1 = lastStable s1
      \<and> (\<forall>i j. i \<le> j \<and> j < length es1
            \<and> (i = 0 \<or> readLogical (pin (es1 ! (i - 1))) = lastStable s1)
            \<and> (\<forall>k. i \<le> k \<and> k \<le> j \<longrightarrow> readLogical (pin (es1 ! k)) \<noteq> lastStable s1)
          \<longrightarrow> ms_debounce (es1 ! j) - ms_bounce (es1 ! i) < DEBOUNCE_MS)
    \<longrightarrow> lastStable s1' = lastStable s1 \<and> door_reports (emitted s1 s1') = [])
   \<and> (run cfg es2 s2 = Some s2' \<and> (\<forall>e \<in> set es2. readLogical (pin e) = r)
      \<and> r \<noteq> lastStable s2
      \<and> (\<exists>j. j < length es2 \<and> DEBOUNCE_MS \<le> ms_debounce (es2 ! j)
            - (if lastRead s2 = r then lastBounceAt s2 else ms_bounce (es2 ! 0)))
    \<longrightarrow> lastStable s2' = r
      \<and> door_reports (emitted s2 s2') = [Println (''door: '' @ statusString r)])
   \<and> (loop cfg e s3 = Some s3' \<and> lastStable s3' \<noteq> lastStable s3
    \<longrightarrow> lastStable s3' = lastRead s3' \<and> lastRead s3' = readLogical (pin e)
      \<and> DEBOUNCE_MS \<le> ms_debounce e - lastBounceAt s3')"
proof (intro conjI impI)
  assume a: "run cfg es1 s1 = Some s1' \<and> lastRead s1 = lastStable s1
      \<and> (\<forall>i j. i \<le> j \<and> j < length es1
            \<and> (i = 0 \<or> readLogical (pin (es1 ! (i - 1))) = lastStable s1)
            \<and> (\<forall>k. i \<le> k \<and> k \<le> j \<longrightarrow> readLogical (pin (es1 ! k)) \<noteq> lastStable s1)
          \<longrightarrow> ms_debounce (es1 ! j) - ms_bounce (es1 ! i) < DEBOUNCE_MS)"
  then have r: "run cfg es1 s1 = Some s1'" and q: "lastRead s1 = lastStable s1"
    and h: "\<And>i j. i \<le> j \<Longrightarrow> j < length es1
            \<Longrightarrow> i = 0 \<or> readLogical (pin (es1 ! (i - 1))) = lastStable s1
            \<Longrightarrow> \<forall>k. i \<le> k \<and> k \<le> j \<longrightarrow> readLogical (pin (es1 ! k)) \<noteq> lastStable s1
            \<Longrightarrow> ms_debounce (es1 ! j) - ms_bounce (es1 ! i) < DEBOUNCE_MS"
    by blast+
  have h1: "\<forall>i j. 0 < i \<and> i \<le> j \<and> j < length es1
          \<and> readLogical (pin (es1 ! (i - 1))) = lastStable s1
          \<and> (\<forall>k. i \<le> k \<and> k \<le> j \<longrightarrow> readLogical (pin (es1 ! k)) \<noteq> lastStable s1)
        \<longrightarrow> ms_debounce (es1 ! j) - ms_bounce (es1 ! i) < DEBOUNCE_MS"
    using h by blast
  have h2: "\<forall>j. j < length es1 \<and> (\<forall>k. k \<le> j \<longrightarrow> readLogical (pin (es1 ! k)) \<noteq> lastStable s1)
        \<longrightarrow> ms_debounce (es1 ! j)
              - (if lastRead s1 = lastStable s1 then ms_bounce (es1 ! 0) else lastBounceAt s1)
            < DEBOUNCE_MS"
    using h [of 0] q by simp
  from bounces_ignored [OF r h1 h2]
  show "lastStable s1' = lastStable s1" and "door_reports (emitted s1 s1') = []"
    by simp_all
next
  assume b: "run cfg es2 s2 = Some s2' \<and> (\<forall>e \<in> set es2. readLogical (pin e) = r)
      \<and> r \<noteq> lastStable s2
      \<and> (\<exists>j. j < length es2 \<and> DEBOUNCE_MS \<le> ms_debounce (es2 ! j)
            - (if lastRead s2 = r then lastBounceAt s2 else ms_bounce (es2 ! 0)))"
  then have "lastStable s2' = r
      \<and> door_reports (emitted s2 s2') = [Println (''door: '' @ statusString r)]"
    by (intro sustained_commits_once) blast+
  then show "lastStable s2' = r"
    and "door_reports (emitted s2 s2') = [Println (''door: '' @ statusString r)]"
    by simp_all
next
  assume c: "loop cfg e s3 = Some s3' \<and> lastStable s3' \<noteq> lastStable s3"
  then obtain s where h: "ensureMqttAndPublishIfDirty cfg e (loop_debounce e s3) = Some s"
    and s': "s3' = loop_window cfg e s"
    by (blast elim: loop_Some)
  have v: "lastRead s3' = lastRead (loop_debounce e s3)"
    "lastBounceAt s3' = lastBounceAt (loop_debounce e s3)"
    "lastStable s3' = lastStable (loop_debounce e s3)"
    by (simp_all add: s' window_vars ensure_vars [OF h])
  let ?d = "loop_debounce e s3"
  have ne: "lastStable ?d \<noteq> lastStable s3"
    using c v(3) by simp
  have rd: "lastRead ?d = readLogical (pin e)"
    using debounce_fields [of e s3] by blast
  have "lastStable ?d =
       (if DEBOUNCE_MS \<le> ms_debounce e - lastBounceAt ?d \<and> lastStable s3 \<noteq> readLogical (pin e)
        then readLogical (pin e) else lastStable s3)"
    using debounce_fields [of e s3] by presburger
  with ne have "DEBOUNCE_MS \<le> ms_debounce e - lastBounceAt ?d"
    and "lastStable ?d = readLogical (pin e)"
    by (metis (full_types))+
  with rd v show "lastStable s3' = lastRead s3'" and "lastRead s3' = readLogical (pin e)"
    and "DEBOUNCE_MS \<le> ms_debounce e - lastBounceAt s3'"
    by simp_all
qed

theorem debounce_stability_witness:
  "lastStable (the (run demo_cfg [tick_at 1000 HIGH, tick_at 1020 LOW]
       (door_closed False 0 radio_off))) = False
   \<and> door_reports (emitted (door_closed False 0 radio_off)
       (the (run demo_cfg [tick_at 1000 HIGH, tick_at 1020 LOW]
          (door_closed False 0 radio_off)))) = []
   \<and> lastStable (the (run demo_cfg [tick_at 2000 HIGH, tick_at 2050 HIGH, tick_at 2100 HIGH,
       tick_at 2150 HIGH] (door_closed False 0 radio_off))) = True
   \<and> door_reports (emitted (door_closed False 0 radio_off)
       (the (run demo_cfg [tick_at 2000 HIGH, tick_at 2050 HIGH, tick_at 2100 HIGH,
          tick_at 2150 HIGH] (door_closed False 0 radio_off)))) = [Println ''door: open'']
   \<and> lastStable (the (loop demo_cfg (tick_at 200 HIGH)
       ((door_closed False 0 radio_off)\<lparr>lastRead := True\<rparr>)))
   \<and> DEBOUNCE_MS \<le> ms_debounce (tick_at 200 HIGH)
       - lastBounceAt (the (loop demo_cfg (tick_at 200 HIGH)
           ((door_closed False 0 radio_off)\<lparr>lastRead := True\<rparr>)))"
proof -
  let ?s = "door_closed False 0 radio_off"
  let ?es1 = "[tick_at 1000 HIGH, tick_at 1020 LOW]"
  let ?es2 = "[tick_at 2000 HIGH, tick_at 2050 HIGH, tick_at 2100 HIGH, tick_at 2150 HIGH]"
  let ?e = "tick_at 200 HIGH"
  obtain s1' where r1: "run demo_cfg ?es1 ?s = Some s1'"
    by (simp add: run_defs demo_defs eval_defs)
  obtain s2' where r2: "run demo_cfg ?es2 ?s = Some s2'"
    by (simp add: run_defs demo_defs eval_defs)
  let ?s3 = "(door_closed False 0 radio_off)\<lparr>lastRead := True\<rparr>"
  obtain s3' where r3: "loop demo_cfg ?e ?s3 = Some s3'"
    by (simp add: run_defs demo_defs eval_defs)
  have q: "lastRead ?s = lastStable ?s" and st: "lastStable ?s = False"
    by (simp_all add: demo_defs)
  have short: "\<forall>i j. i \<le> j \<and> j < length ?es1
            \<and> (i = 0 \<or> readLogical (pin (?es1 ! (i - 1))) = lastStable ?s)
            \<and> (\<forall>k. i \<le> k \<and> k \<le> j \<longrightarrow> readLogical (pin (?es1 ! k)) \<noteq> lastStable ?s)
          \<longrightarrow> ms_debounce (?es1 ! j) - ms_bounce (?es1 ! i) < DEBOUNCE_MS"
  proof (intro allI impI)
    fix i j
    assume a: "i \<le> j \<and> j < length ?es1
            \<and> (i = 0 \<or> readLogical (pin (?es1 ! (i - 1))) = lastStable ?s)
            \<and> (\<forall>k. i \<le> k \<and> k \<le> j \<longrightarrow> readLogical (pin (?es1 ! k)) \<noteq> lastStable ?s)"
    then have "j = 0 \<or> j = 1" by auto
    moreover have "readLogical (pin (?es1 ! 1)) = lastStable ?s"
      by (simp add: demo_defs eval_defs)
    ultimately have "j = 0" and "i = 0"
      using a by auto
    then show "ms_debounce (?es1 ! j) - ms_bounce (?es1 ! i) < DEBOUNCE_MS"
      by (simp add: demo_defs eval_defs)
  qed
  have open_all: "\<forall>e \<in> set ?es2. readLogical (pin e) = True"
    by (simp add: demo_defs eval_defs)
  have ne: "True \<noteq> lastStable ?s"
    by (simp add: demo_defs)
  have long: "\<exists>j. j < length ?es2 \<and> DEBOUNCE_MS \<le> ms_debounce (?es2 ! j)
            - (if lastRead ?s = True then lastBounceAt ?s else ms_bounce (?es2 ! 0))"
    by (rule exI [of _ 2]) (simp add: demo_defs eval_defs)
  have ch: "lastStable (the (loop demo_cfg ?e ?s3)) \<noteq> lastStable ?s3"
    and st3: "lastStable (the (loop demo_cfg ?e ?s3))"
    by (simp_all add: run_defs demo_defs eval_defs)
  note t = debounce_stability [of demo_cfg ?es1 ?s s1' ?es2 ?s s2' True ?e ?s3 s3']
  from t r1 q short have "lastStable s1' = lastStable ?s \<and> door_reports (emitted ?s s1') = []"
    by blast
  moreover from t r2 open_all ne long have "lastStable s2' = True
      \<and> door_reports (emitted ?s s2') = [Println (''door: '' @ statusString True)]"
    by blast
  moreover from t r3 ch have "lastStable s3' = lastRead s3'
      \<and> DEBOUNCE_MS \<le> ms_debounce ?e - lastBounceAt s3'"
    by (simp add: r3)
  ultimately show ?thesis
    using r1 r2 r3 st st3 by (simp add: statusString_def)
qed

subsection \<open>The connectivity window\<close>

lemma sint_nonneg_iff: "(0 \<le> sint (w :: 32 word)) = (unat w < 2 ^ 31)"
proof -
  have a: "(0 \<le> sint w) = (\<not> bit w 31)"
    using bit_last_iff [of w] by auto
  have b: "bit w 31 = odd (unat w div 2 ^ 31)"
  proof -
    have "bit (unat w) 31 = bit w 31"
      by (simp add: bit_unsigned_iff)
    then show ?thesis
      by (simp add: bit_iff_odd)
  qed
  have c: "unat w < 2 ^ 32"
    using unsigned_less [of w] by simp
  have d: "odd (unat w div 2 ^ 31) = (2 ^ 31 \<le> unat w)"
  proof (cases "unat w < 2 ^ 31")
    case True
    then show ?thesis by simp
  next
    case False
    with c have "unat w div 2 ^ 31 = 1" by simp
    with False show ?thesis by simp
  qed
  from a b d show ?thesis by auto
qed

lemma window_expired_plain:
  assumes "unat now < unat deadline + 2 ^ 31" and "unat deadline < unat now + 2 ^ 31"
  shows "window_expired now deadline = (deadline \<le> now)"
proof (cases "deadline \<le> now")
  case True
  then have "unat (now - deadline) = unat now - unat deadline"
    by (simp add: unat_sub)
  with True assms show ?thesis
    by (simp add: window_expired_def sint_nonneg_iff word_le_nat_alt)
next
  case False
  then have lt: "unat now < unat deadline"
    by (simp add: word_le_nat_alt)
  have "unat (now - deadline) = unat now + 2 ^ 32 - unat deadline"
    using lt by (simp add: unat_sub_if_size word_size)
  with False lt assms show ?thesis
    by (simp add: window_expired_def sint_nonneg_iff)
qed

text \<open>
  C1 as stated fails at two inputs. With the radio already asleep, nothing pending and the
  deadline passed, a tick calls nothing: the teardown is not repeated (the state is the
  one \<open>rest_run\<close> leaves). With a live session and nothing pending, 500 ms after a
  publish at clock reading 4294966296, the deadline has wrapped to 599000 and is below the
  clock reading as a plain number, yet the window has 599.5 s left and the tick only
  services the session.
\<close>

theorem teardown_not_repeated_counterexample:
  "loop demo_cfg (tick_at 800000 LOW) (door_closed False 601000 radio_off)
     = Some (door_closed False 601000 radio_off)
   \<and> \<not> dirty (door_closed False 601000 radio_off)
   \<and> windowDeadline (door_closed False 601000 radio_off) \<le> ms_window (tick_at 800000 LOW)
   \<and> ForceSleepBegin \<notin> set (emitted (door_closed False 601000 radio_off)
        (door_closed False 601000 radio_off))
   \<and> hw (the (boot_run demo_cfg radio_off (tick_at 1000 LOW) rest_run)) = radio_off
   \<and> \<not> dirty (the (boot_run demo_cfg radio_off (tick_at 1000 LOW) rest_run))
   \<and> windowDeadline (the (boot_run demo_cfg radio_off (tick_at 1000 LOW) rest_run)) = 601000
   \<and> emitted (the (boot_run demo_cfg radio_off (tick_at 1000 LOW) rest_run))
        (the (boot_run demo_cfg radio_off (tick_at 1000 LOW) (rest_run @ [tick_at 800000 LOW])))
       = []
   \<and> 4294966296 + WINDOW_MS = 599000
   \<and> session_up (hw (door_closed False 599000 radio_live))
   \<and> \<not> dirty (door_closed False 599000 radio_live)
   \<and> windowDeadline (door_closed False 599000 radio_live) \<le> ms_window (tick_at 4294966796 LOW)
   \<and> emitted (door_closed False 599000 radio_live)
        (the (loop demo_cfg (tick_at 4294966796 LOW) (door_closed False 599000 radio_live)))
       = [MqttLoop]"
  by (simp add: run_defs demo_defs eval_defs)

text \<open>
  C1 (window reset law), amended. A successful status publish sets the deadline to the
  clock reading taken right after it plus \<open>WINDOW_MS\<close>, whatever the deadline was before.
  In a tick the radio is put to sleep only if nothing is pending and the window has
  expired, where expiry compares clock and deadline wrap-around-safely, as
  \<^verbatim>\<open>(long)(millis() - windowDeadline) >= 0\<close>; this is the plain \<^verbatim>\<open>now >= deadline\<close>
  whenever the two are less than \<open>2 ^ 31\<close> ms apart. With a live broker session after
  the publish step the radio is put to sleep if and only if that holds. With the radio
  already asleep, no link and no session, it is not put to sleep again. A tick with the
  radio awake and no broker session is not covered.
\<close>

theorem window_reset_law:
  assumes "ensureMqttAndPublishIfDirty cfg e (loop_debounce e s) = Some s2"
  shows "loop cfg e s = Some (loop_window cfg e s2)
    \<and> (fst (publishStatus b e s0) \<longrightarrow>
         windowDeadline (snd (publishStatus b e s0)) = ms_publish e + WINDOW_MS)
    \<and> ((\<exists>payload retained. MqttPublish TOPIC_STATUS payload retained True
            \<in> set (emitted s (loop_window cfg e s2))) \<longrightarrow>
         windowDeadline (loop_window cfg e s2) = ms_publish e + WINDOW_MS)
    \<and> (ForceSleepBegin \<in> set (emitted s (loop_window cfg e s2)) \<longrightarrow>
         \<not> dirty s2 \<and> window_expired (ms_window e) (windowDeadline s2))
    \<and> (session_up (hw s2) \<longrightarrow>
         (ForceSleepBegin \<in> set (emitted s (loop_window cfg e s2))) =
         (\<not> dirty s2 \<and> window_expired (ms_window e) (windowDeadline s2)))
    \<and> (\<not> session_up (hw s2) \<and> \<not> link_up (hw s2) \<and> force_sleep (hw s2) \<longrightarrow>
         ForceSleepBegin \<notin> set (emitted s (loop_window cfg e s2)))
    \<and> (unat (ms_window e) < unat (windowDeadline s2) + 2 ^ 31
        \<and> unat (windowDeadline s2) < unat (ms_window e) + 2 ^ 31 \<longrightarrow>
         window_expired (ms_window e) (windowDeadline s2) = (windowDeadline s2 \<le> ms_window e))"
proof -
  let ?s1 = "loop_debounce e s"
  let ?s3 = "loop_window cfg e s2"
  have t12: "trace s2 = trace s @ emitted s s2" "emitted s s2 = emitted s ?s1 @ emitted ?s1 s2"
    using emitted_trans [OF debounce_trace ensure_trace [OF assms]] by simp_all
  have t13: "emitted s ?s3 = emitted s s2 @ emitted s2 ?s3"
    using emitted_trans [OF t12(1) window_trace] by simp
  have ev: "emitted s ?s3 = emitted s ?s1 @ emitted ?s1 s2 @ emitted s2 ?s3"
    using t12(2) t13 by simp
  have a: "loop cfg e s = Some ?s3"
    using assms by (simp add: loop_def)
  have b: "fst (publishStatus b e s0) \<longrightarrow>
         windowDeadline (snd (publishStatus b e s0)) = ms_publish e + WINDOW_MS"
    using publishStatus_deadline by blast
  have c: "windowDeadline ?s3 = ms_publish e + WINDOW_MS"
    if "MqttPublish TOPIC_STATUS payload retained True \<in> set (emitted s ?s3)" for payload retained
  proof -
    let ?ev = "MqttPublish TOPIC_STATUS payload retained True"
    have "?ev \<in> set (filter is_status_publish (emitted s ?s3))"
      using that by simp
    then have "?ev \<in> set (filter is_status_publish (emitted ?s1 s2))"
      by (simp add: ev window_status debounce_emitted)
    then have "status_sent e ?s1"
      by (simp add: ensure_status [OF assms] status_sent_def split: if_splits)
    then show ?thesis
      by (simp add: window_vars ensure_deadline [OF assms])
  qed
  have d: "(ForceSleepBegin \<in> set (emitted s ?s3)) =
         (session_up (hw s2) \<and> \<not> dirty s2 \<and> window_expired (ms_window e) (windowDeadline s2))"
    using ensure_no_sleep [OF assms]
    by (simp add: ev window_sleep debounce_emitted)
  have f: "window_expired (ms_window e) (windowDeadline s2) = (windowDeadline s2 \<le> ms_window e)"
    if "unat (ms_window e) < unat (windowDeadline s2) + 2 ^ 31
        \<and> unat (windowDeadline s2) < unat (ms_window e) + 2 ^ 31"
    using that by (intro window_expired_plain) simp_all
  from a b c d f show ?thesis by blast
qed

theorem window_reset_law_witness:
  "ForceSleepBegin \<in> set (emitted (door_closed False 601000 radio_live)
       (the (loop demo_cfg (tick_at 700000 LOW) (door_closed False 601000 radio_live))))
   \<and> window_expired (ms_window (tick_at 700000 LOW))
       (windowDeadline (door_closed False 601000 radio_live))
   \<and> windowDeadline (door_closed False 601000 radio_live) \<le> ms_window (tick_at 700000 LOW)
   \<and> MqttPublish TOPIC_STATUS ''closed'' True True \<in> set (emitted (door_closed True 0 radio_live)
       (the (loop demo_cfg (tick_at 1000 LOW) (door_closed True 0 radio_live))))
   \<and> windowDeadline (the (loop demo_cfg (tick_at 1000 LOW) (door_closed True 0 radio_live)))
       = 1000 + WINDOW_MS
   \<and> ForceSleepBegin \<notin> set (emitted (door_closed True 0 radio_live)
       (the (loop demo_cfg (tick_at 1000 LOW) (door_closed True 0 radio_live))))
   \<and> fst (publishStatus False (tick_at 1000 LOW) (door_closed True 0 radio_live))
   \<and> ForceSleepBegin \<notin> set (emitted (door_closed False 601000 radio_off)
       (the (loop demo_cfg (tick_at 800000 LOW) (door_closed False 601000 radio_off))))"
proof -
  let ?eB = "tick_at 700000 LOW" and ?sB = "door_closed False 601000 radio_live"
  let ?eA = "tick_at 1000 LOW" and ?sA = "door_closed True 0 radio_live"
  let ?eC = "tick_at 800000 LOW" and ?sC = "door_closed False 601000 radio_off"
  have hB: "ensureMqttAndPublishIfDirty demo_cfg ?eB (loop_debounce ?eB ?sB) = Some ?sB"
    by (simp add: demo_defs eval_defs)
  obtain s2 where hA: "ensureMqttAndPublishIfDirty demo_cfg ?eA (loop_debounce ?eA ?sA) = Some s2"
    by (simp add: demo_defs eval_defs)
  have hC: "ensureMqttAndPublishIfDirty demo_cfg ?eC (loop_debounce ?eC ?sC) = Some ?sC"
    by (simp add: demo_defs eval_defs)
  have pB: "session_up (hw ?sB) \<and> \<not> dirty ?sB
      \<and> window_expired (ms_window ?eB) (windowDeadline ?sB)
      \<and> unat (ms_window ?eB) < unat (windowDeadline ?sB) + 2 ^ 31
      \<and> unat (windowDeadline ?sB) < unat (ms_window ?eB) + 2 ^ 31"
    by (simp add: demo_defs eval_defs)
  have pC: "\<not> session_up (hw ?sC) \<and> \<not> link_up (hw ?sC) \<and> force_sleep (hw ?sC)"
    by (simp add: demo_defs)
  have pA: "MqttPublish TOPIC_STATUS ''closed'' True True
      \<in> set (emitted ?sA (the (loop demo_cfg ?eA ?sA)))
      \<and> ForceSleepBegin \<notin> set (emitted ?sA (the (loop demo_cfg ?eA ?sA)))
      \<and> fst (publishStatus False ?eA ?sA)"
    by (simp add: demo_defs eval_defs)
  note tB = window_reset_law [OF hB, of False ?sA]
  note tA = window_reset_law [OF hA, of False ?sA]
  note tC = window_reset_law [OF hC, of False ?sA]
  from tB pB have "ForceSleepBegin \<in> set (emitted ?sB (the (loop demo_cfg ?eB ?sB)))
      \<and> windowDeadline ?sB \<le> ms_window ?eB"
    by simp
  moreover from tA pA have "windowDeadline (the (loop demo_cfg ?eA ?sA)) = 1000 + WINDOW_MS"
    by (auto simp: tick_at_def)
  moreover from tC pC have "ForceSleepBegin \<notin> set (emitted ?sC (the (loop demo_cfg ?eC ?sC)))"
    by simp
  ultimately show ?thesis
    using pA pB by simp
qed

text \<open>
  C5 (cheap reconnect only within the window) does not hold of the code. Section 3 tests
  the window twice: the teardown branch with the wrap-around-safe
  \<^verbatim>\<open>(long)(millis() - windowDeadline) >= 0\<close>, the reconnect branch with the plain
  \<^verbatim>\<open>millis() <= windowDeadline\<close>. They disagree at three inputs, evaluated here.
  \<^item> At \<^verbatim>\<open>millis() == windowDeadline\<close> (601000) the window has expired for the teardown
    branch (with a live session the same tick puts the radio to sleep), yet without a
    session the reconnect is attempted.
  \<^item> With the deadline at 4294967196 and the clock wrapped to 50, 150 ms after the
    deadline, the window has expired, yet the reconnect is attempted; \<open>wrap_run\<close>
    leads there from power-up.
  \<^item> After a publish at clock reading 4294966296 the deadline wraps to 599000; 500 ms
    later, at 4294966796, the window has not expired, the link is up, there is no
    session, and the tick does nothing.
\<close>

theorem reconnect_test_disagrees_with_window:
  "window_expired 601000 601000
   \<and> reconnect_mark \<in> set (emitted (door_closed False 601000 radio_linked)
        (the (loop demo_cfg (tick_at 601000 LOW) (door_closed False 601000 radio_linked))))
   \<and> ForceSleepBegin \<in> set (emitted (door_closed False 601000 radio_live)
        (the (loop demo_cfg (tick_at 601000 LOW) (door_closed False 601000 radio_live))))
   \<and> window_expired 50 4294967196
   \<and> emitted (door_closed False 4294967196 radio_linked)
        (the (loop demo_cfg (tick_at 50 LOW) (door_closed False 4294967196 radio_linked)))
       = [reconnect_mark,
          MqttConnect ''esp-a1b2c3'' (Some (''garage'', [])) TOPIC_ONLINE 0 True ''false'' True,
          MqttPublish TOPIC_ONLINE ''true'' True True]
   \<and> windowDeadline (the (boot_run demo_cfg radio_off (tick_at 1000 LOW) wrap_run)) = 4294967196
   \<and> emitted (the (boot_run demo_cfg radio_off (tick_at 1000 LOW) wrap_run))
        (the (boot_run demo_cfg radio_off (tick_at 1000 LOW) (wrap_run @ [tick_at 50 HIGH])))
       = [reconnect_mark,
          MqttConnect ''esp-a1b2c3'' (Some (''garage'', [])) TOPIC_ONLINE 0 True ''false'' True,
          MqttPublish TOPIC_ONLINE ''true'' True True]
   \<and> 4294966296 + WINDOW_MS = 599000
   \<and> \<not> window_expired 4294966796 599000
   \<and> loop demo_cfg (tick_at 4294966796 LOW) (door_closed False 599000 radio_linked)
       = Some (door_closed False 599000 radio_linked)"
  by (simp add: run_defs demo_defs eval_defs)

text \<open>
  C9 (no reconnect before the first publish). In every state reached from power-up in
  which no status publish has succeeded yet, the deadline still is 0 and the reconnect of
  section 3 has never been attempted; and with the deadline at 0 and no live session,
  section 3 does nothing, whatever the link state and the dirty flag.
\<close>

theorem no_reconnect_before_first_publish:
  assumes "boot_run cfg h e0 es = Some s" and "published (trace s) = []"
  shows "windowDeadline s = 0 \<and> reconnect_mark \<notin> set (trace s)
    \<and> (\<forall>e' s2. windowDeadline s2 = 0 \<and> \<not> session_up (hw s2) \<longrightarrow> loop_window cfg e' s2 = s2)"
proof -
  let ?J = "\<lambda>s. published (trace s) = [] \<longrightarrow>
      windowDeadline s = 0 \<and> reconnect_mark \<notin> set (trace s)"
  from assms(1) obtain s0 where b: "setup_sketch cfg e0 h = Some s0" and r: "run cfg es s0 = Some s"
    by (rule boot_run_Some)
  have base: "?J s0"
    using setup_facts(3,4,5) [OF b] by (simp split: if_splits)
  have step: "?J s2" if j: "?J s1" and l: "loop cfg e (disturb e s1) = Some s2" for e s1 s2
  proof
    assume none: "published (trace s2) = []"
    note f = tick_facts [OF l]
    from none f(1) have p1: "published (trace s1) = []"
      and pe: "published (emitted (disturb e s1) s2) = []"
      by (simp_all add: published_append disturb_frame)
    from pe f(5) have ns: "\<not> status_sent e (loop_debounce e (disturb e s1))"
      by (simp split: if_splits)
    from j p1 have w1: "windowDeadline s1 = 0" and m1: "reconnect_mark \<notin> set (trace s1)"
      by simp_all
    have w2: "windowDeadline s2 = 0"
      using f(4) ns w1 by (simp add: disturb_frame)
    have "reconnect_mark \<notin> set (emitted (disturb e s1) s2)"
      using f(8) w2 by blast
    with m1 f(1) have "reconnect_mark \<notin> set (trace s2)"
      by (simp add: disturb_frame)
    with w2 show "windowDeadline s2 = 0 \<and> reconnect_mark \<notin> set (trace s2)"
      by simp
  qed
  have "?J s"
    using r base step by (rule run_invariant)
  moreover have "loop_window cfg e' s2 = s2"
    if "windowDeadline s2 = 0 \<and> \<not> session_up (hw s2)" for e' s2
    using that by (simp add: loop_window_def)
  ultimately show ?thesis
    using assms(2) by blast
qed

theorem no_reconnect_before_first_publish_witness:
  "published (trace (the (boot_run demo_cfg radio_off ((tick_at 1000 LOW)\<lparr>connect_ok := False\<rparr>)
        [(tick_at 2000 LOW)\<lparr>connect_ok := False\<rparr>]))) = []
   \<and> link_up (hw (the (boot_run demo_cfg radio_off ((tick_at 1000 LOW)\<lparr>connect_ok := False\<rparr>)
        [(tick_at 2000 LOW)\<lparr>connect_ok := False\<rparr>])))
   \<and> windowDeadline (the (boot_run demo_cfg radio_off ((tick_at 1000 LOW)\<lparr>connect_ok := False\<rparr>)
        [(tick_at 2000 LOW)\<lparr>connect_ok := False\<rparr>])) = 0
   \<and> reconnect_mark \<notin> set (trace (the (boot_run demo_cfg radio_off
        ((tick_at 1000 LOW)\<lparr>connect_ok := False\<rparr>) [(tick_at 2000 LOW)\<lparr>connect_ok := False\<rparr>])))
   \<and> loop_window demo_cfg (tick_at 3000 LOW) (door_closed True 0 radio_linked)
       = door_closed True 0 radio_linked"
proof -
  let ?r = "boot_run demo_cfg radio_off ((tick_at 1000 LOW)\<lparr>connect_ok := False\<rparr>)
        [(tick_at 2000 LOW)\<lparr>connect_ok := False\<rparr>]"
  obtain s where h: "?r = Some s"
    by (simp add: run_defs demo_defs eval_defs)
  have f: "published (trace (the ?r)) = [] \<and> link_up (hw (the ?r))"
    by (simp add: run_defs demo_defs eval_defs)
  have g: "windowDeadline (door_closed True 0 radio_linked) = 0
      \<and> \<not> session_up (hw (door_closed True 0 radio_linked))"
    by (simp add: demo_defs)
  from f h have "published (trace s) = []"
    by simp
  from no_reconnect_before_first_publish [OF h this] f g h show ?thesis
    by simp
qed

subsection \<open>The pending status\<close>

text \<open>
  C3 (at most one pending). Take a run of ticks in which a status is pending at the
  publish step of the first tick, still pending after every tick but the last, and not
  pending after the last. Over the whole run exactly one status publish succeeds, and its
  payload is the stable state as it is at the end, however often the stable state changed
  on the way.
\<close>

theorem one_publish_per_dirty_period:
  assumes "run cfg es s = Some s'"
    and "es \<noteq> []"
    and "dirty (loop_debounce (hd es) s)"
    and "\<forall>k sk. 0 < k \<and> k < length es \<and> run cfg (take k es) s = Some sk \<longrightarrow> dirty sk"
    and "\<not> dirty s'"
  shows "published (emitted s s') = [statusString (lastStable s')]"
  using assms
proof (induction es arbitrary: s)
  case Nil
  then show ?case by simp
next
  case (Cons e es)
  from Cons.prems(1) obtain s1 where l: "loop cfg e (disturb e s) = Some s1"
    and r: "run cfg es s1 = Some s'"
    by (auto split: option.splits)
  have d1: "dirty (loop_debounce e (disturb e s))"
    using Cons.prems(3) by (simp add: debounce_disturb)
  note tp = tick_published [OF l]
  show ?case
  proof (cases "es = []")
    case True
    with r have "s1 = s'" by simp
    with tp d1 Cons.prems(5) show ?thesis
      by (simp add: emitted_disturb)
  next
    case False
    have "run cfg (take 1 (e # es)) s = Some s1"
      using l by simp
    with Cons.prems(4) False have ds1: "dirty s1"
      by (metis One_nat_def length_Cons length_greater_0_conv less_numeral_extra(1) not_less_eq zero_less_Suc Suc_less_eq)
    have p1: "published (emitted s s1) = []"
      using tp ds1 by (simp add: emitted_disturb)
    have d2: "dirty (loop_debounce (hd es) s1)"
      using ds1 by (simp add: debounce_dirty)
    have mid: "\<forall>k sk. 0 < k \<and> k < length es \<and> run cfg (take k es) s1 = Some sk \<longrightarrow> dirty sk"
    proof (intro allI impI)
      fix k sk
      assume a: "0 < k \<and> k < length es \<and> run cfg (take k es) s1 = Some sk"
      then have "run cfg (take (Suc k) (e # es)) s = Some sk"
        using l by simp
      with a Cons.prems(4) show "dirty sk"
        by (metis Suc_less_eq length_Cons zero_less_Suc)
    qed
    have "published (emitted s1 s') = [statusString (lastStable s')]"
      by (rule Cons.IH [OF r False d2 mid Cons.prems(5)])
    then show ?thesis
      by (simp add: run_emitted_Cons [OF l r] published_append p1)
  qed
qed

theorem one_publish_per_dirty_period_witness:
  "published (emitted (door_closed True 0 radio_off)
      (the (run demo_cfg [(tick_at 1000 HIGH)\<lparr>connect_ok := False\<rparr>, tick_at 1100 HIGH]
         (door_closed True 0 radio_off)))) = [''open'']
   \<and> dirty (the (run demo_cfg [(tick_at 1000 HIGH)\<lparr>connect_ok := False\<rparr>]
         (door_closed True 0 radio_off)))
   \<and> \<not> dirty (the (run demo_cfg [(tick_at 1000 HIGH)\<lparr>connect_ok := False\<rparr>, tick_at 1100 HIGH]
         (door_closed True 0 radio_off)))"
proof -
  let ?es = "[(tick_at 1000 HIGH)\<lparr>connect_ok := False\<rparr>, tick_at 1100 HIGH]"
  let ?s = "door_closed True 0 radio_off"
  obtain s' where h: "run demo_cfg ?es ?s = Some s'"
    by (simp add: run_defs demo_defs eval_defs)
  have ne: "?es \<noteq> []" by simp
  have d0: "dirty (loop_debounce (hd ?es) ?s)"
    by (simp add: demo_defs eval_defs)
  have f: "dirty (the (run demo_cfg (take 1 ?es) ?s)) \<and> \<not> dirty (the (run demo_cfg ?es ?s))
      \<and> lastStable (the (run demo_cfg ?es ?s))"
    by (simp add: run_defs demo_defs eval_defs)
  have mid: "\<forall>k sk. 0 < k \<and> k < length ?es \<and> run demo_cfg (take k ?es) ?s = Some sk \<longrightarrow> dirty sk"
  proof (intro allI impI)
    fix k sk
    assume a: "0 < k \<and> k < length ?es \<and> run demo_cfg (take k ?es) ?s = Some sk"
    then have "k = 1" by simp
    with a f show "dirty sk" by simp
  qed
  from f h have nd: "\<not> dirty s'" by simp
  from one_publish_per_dirty_period [OF h ne d0 mid nd] f h show ?thesis
    by (simp add: statusString_def)
qed








lemma publishes_bounded_by_reports:
  assumes "boot_run cfg h e0 es = Some s"
  shows "length (published (trace s)) + (if dirty s then 1 else 0)
      \<le> Suc (length (door_reports (trace s)))"
proof -
  let ?K = "\<lambda>s. length (published (trace s)) + (if dirty s then 1 else 0)
      \<le> Suc (length (door_reports (trace s)))"
  from assms(1) obtain s0 where b: "setup_sketch cfg e0 h = Some s0" and r: "run cfg es s0 = Some s"
    by (rule boot_run_Some)
  have base: "?K s0"
    using setup_facts(2,4) [OF b] by simp
  have step: "?K s2" if k: "?K s1" and l: "loop cfg e (disturb e s1) = Some s2" for e s1 s2
  proof -
    note f = tick_facts [OF l]
    have sd: "status_sent e (loop_debounce e (disturb e s1)) \<Longrightarrow> dirty (loop_debounce e (disturb e s1))"
      by (simp add: status_sent_def status_attempted_def)
    have dd: "dirty (loop_debounce e (disturb e s1)) = (dirty s1 \<or> lastStable s2 \<noteq> lastStable s1)"
      using debounce_dirty [of e "disturb e s1"] f(2) by (simp add: disturb_frame)
    show ?thesis
      using k f(1,3,5,6) sd dd
      by (auto simp add: published_append door_reports_append disturb_frame split: if_splits)
  qed
  show ?thesis
    using r base step by (rule run_invariant)
qed

lemma closed_until_first_report:
  assumes "boot_run cfg h e0 es = Some s" and "door_reports (trace s) = []"
  shows "lastStable s = readLogical (pin e0)
    \<and> (\<forall>ev \<in> set (filter is_status_publish (trace s)).
          \<exists>ok. ev = MqttPublish TOPIC_STATUS (statusString (readLogical (pin e0))) True ok)"
proof -
  let ?r = "readLogical (pin e0)"
  let ?L = "\<lambda>s. door_reports (trace s) = [] \<longrightarrow> lastStable s = ?r
    \<and> (\<forall>ev \<in> set (filter is_status_publish (trace s)).
          \<exists>ok. ev = MqttPublish TOPIC_STATUS (statusString ?r) True ok)"
  from assms(1) obtain s0 where b: "setup_sketch cfg e0 h = Some s0" and r: "run cfg es s0 = Some s"
    by (rule boot_run_Some)
  have base: "?L s0"
    using setup_facts(1,6) [OF b] by auto
  have step: "?L s2" if k: "?L s1" and l: "loop cfg e (disturb e s1) = Some s2" for e s1 s2
  proof
    assume none: "door_reports (trace s2) = []"
    note f = tick_facts [OF l]
    from none f(1) have d1: "door_reports (trace s1) = []"
      and de: "door_reports (emitted (disturb e s1) s2) = []"
      by (simp_all add: door_reports_append disturb_frame)
    from de f(6) have same: "lastStable s2 = lastStable s1"
      by (simp add: disturb_frame split: if_splits)
    from k d1 have l1: "lastStable s1 = ?r"
      and p1: "\<forall>ev \<in> set (filter is_status_publish (trace s1)).
          \<exists>ok. ev = MqttPublish TOPIC_STATUS (statusString ?r) True ok"
      by simp_all
    show "lastStable s2 = ?r
      \<and> (\<forall>ev \<in> set (filter is_status_publish (trace s2)).
          \<exists>ok. ev = MqttPublish TOPIC_STATUS (statusString ?r) True ok)"
      using same l1 p1 f(1,7) by (auto simp add: disturb_frame split: if_splits)
  qed
  have "?L s"
    using r base step by (rule run_invariant)
  with assms(2) show ?thesis by simp
qed

lemma setup_publishes:
  assumes "setup_sketch cfg e h = Some s0"
    and "wifi_wait (ms_start e) 8000 (wifi_polls e) = Some True" and "connect_ok e"
  shows "filter is_status_publish (trace s0) =
     [MqttPublish TOPIC_STATUS (statusString (readLogical (pin e))) True (publish_ok e)]"
proof -
  from assms(1) obtain s3 where h: "ensureMqttAndPublishIfDirty cfg e s3 = Some s0"
    and d: "dirty s3" and st: "lastStable s3 = readLogical (pin e)"
    and t: "trace s3 = [Println [], Println ''Garage monitor starting...'', MqttDisconnect,
      WifiDisconnect True, WifiPersistent False, WifiMode WIFI_OFF, ForceSleepBegin]"
    by (rule setup_Some)
  have a: "status_attempted e s3"
    using d assms(2,3) by (simp add: status_attempted_def link_joins_def session_joins_def)
  have f3: "filter is_status_publish (trace s3) = []"
    by (simp add: t)
  show ?thesis
    using ensure_status [OF h] a st by (simp add: ensure_trace [OF h] f3)
qed

lemma run_status_prefix:
  assumes "run cfg es s0 = Some s"
  shows "\<exists>rest. filter is_status_publish (trace s) = filter is_status_publish (trace s0) @ rest"
  using run_trace [OF assms] by (metis filter_append)

text \<open>
  C7 (boot publish), for every state reached from power-up.
  \<^item> If the pin reads closed at boot and the link and the broker connect come up during
    \<^verbatim>\<open>setup()\<close>, the first status publish of the whole run is the one \<^verbatim>\<open>setup()\<close>
    makes, before any tick: payload \<open>''closed''\<close>, retained.
  \<^item> If the pin reads closed at boot then, as long as no stable-state change has been
    reported, every status publish carries \<open>''closed''\<close>, retained.
  \<^item> There are at most as many successful status publishes as reported stable-state
    changes, plus the one of the boot.
  \<^item> A tick that starts with nothing pending and does not change the stable state
    publishes no status.
\<close>

theorem boot_publish_and_publish_causes:
  assumes "boot_run cfg h e0 es = Some s"
  shows "(readLogical (pin e0) = False
        \<and> wifi_wait (ms_start e0) 8000 (wifi_polls e0) = Some True \<and> connect_ok e0
      \<longrightarrow> (\<exists>rest. filter is_status_publish (trace s) =
            MqttPublish TOPIC_STATUS ''closed'' True (publish_ok e0) # rest))
    \<and> (readLogical (pin e0) = False \<and> door_reports (trace s) = []
      \<longrightarrow> (\<forall>ev \<in> set (filter is_status_publish (trace s)).
            \<exists>ok. ev = MqttPublish TOPIC_STATUS ''closed'' True ok))
    \<and> length (published (trace s)) \<le> Suc (length (door_reports (trace s)))
    \<and> (loop cfg e s = Some s' \<and> \<not> dirty s \<and> lastStable s' = lastStable s
      \<longrightarrow> filter is_status_publish (emitted s s') = [])"
proof -
  from assms obtain s0 where b: "setup_sketch cfg e0 h = Some s0" and r: "run cfg es s0 = Some s"
    by (rule boot_run_Some)
  have a: "\<exists>rest. filter is_status_publish (trace s) =
            MqttPublish TOPIC_STATUS ''closed'' True (publish_ok e0) # rest"
    if "readLogical (pin e0) = False
        \<and> wifi_wait (ms_start e0) 8000 (wifi_polls e0) = Some True \<and> connect_ok e0"
    using run_status_prefix [OF r] setup_publishes [OF b] that
    by (simp add: statusString_def)
  have c: "\<forall>ev \<in> set (filter is_status_publish (trace s)).
            \<exists>ok. ev = MqttPublish TOPIC_STATUS ''closed'' True ok"
    if "readLogical (pin e0) = False \<and> door_reports (trace s) = []"
    using closed_until_first_report [OF assms] that by (simp add: statusString_def)
  have n: "length (published (trace s)) \<le> Suc (length (door_reports (trace s)))"
    using publishes_bounded_by_reports [OF assms] by (simp split: if_splits)
  have t: "filter is_status_publish (emitted s s') = []"
    if "loop cfg e s = Some s' \<and> \<not> dirty s \<and> lastStable s' = lastStable s"
  proof -
    from that have l: "loop cfg e s = Some s'" and nd: "\<not> dirty s"
      and same: "lastStable s' = lastStable s"
      by simp_all
    note f = tick_facts [OF l]
    have "\<not> dirty (loop_debounce e s)"
      using nd same f(2) by (simp add: debounce_dirty)
    then show ?thesis
      using f(7) by (simp add: status_attempted_def)
  qed
  from a c n t show ?thesis by blast
qed

theorem boot_publish_and_publish_causes_witness:
  "readLogical (pin (tick_at 1000 LOW)) = False
   \<and> filter is_status_publish (trace (the (boot_run demo_cfg radio_linked (tick_at 1000 LOW)
        [tick_at 1010 LOW]))) = [MqttPublish TOPIC_STATUS ''closed'' True True]
   \<and> door_reports (trace (the (boot_run demo_cfg radio_linked (tick_at 1000 LOW)
        [tick_at 1010 LOW]))) = []
   \<and> published (trace (the (boot_run demo_cfg radio_linked (tick_at 1000 LOW)
        [tick_at 1010 LOW]))) = [''closed'']
   \<and> filter is_status_publish (emitted
        (the (boot_run demo_cfg radio_linked (tick_at 1000 LOW) [tick_at 1010 LOW]))
        (the (loop demo_cfg (tick_at 1020 LOW)
           (the (boot_run demo_cfg radio_linked (tick_at 1000 LOW) [tick_at 1010 LOW]))))) = []"
proof -
  let ?r = "boot_run demo_cfg radio_linked (tick_at 1000 LOW) [tick_at 1010 LOW]"
  obtain s where h: "?r = Some s"
    by (simp add: run_defs demo_defs eval_defs)
  obtain s' where l: "loop demo_cfg (tick_at 1020 LOW) (the ?r) = Some s'"
    by (simp add: run_defs demo_defs eval_defs)
  have f: "readLogical (pin (tick_at 1000 LOW)) = False
      \<and> wifi_wait (ms_start (tick_at 1000 LOW)) 8000 (wifi_polls (tick_at 1000 LOW)) = Some True
      \<and> connect_ok (tick_at 1000 LOW) \<and> publish_ok (tick_at 1000 LOW)"
    by (simp add: demo_defs eval_defs)
  have g: "filter is_status_publish (trace (the ?r)) = [MqttPublish TOPIC_STATUS ''closed'' True True]
      \<and> door_reports (trace (the ?r)) = [] \<and> published (trace (the ?r)) = [''closed'']
      \<and> \<not> dirty (the ?r)
      \<and> lastStable (the (loop demo_cfg (tick_at 1020 LOW) (the ?r))) = lastStable (the ?r)"
    by (simp add: run_defs demo_defs eval_defs)
  from boot_publish_and_publish_causes [OF h, of "tick_at 1020 LOW" s'] f g h l show ?thesis
    by simp
qed

text \<open>
  C10 (a clean flag means the broker has the current state). In every state reached from
  power-up in which nothing is pending and some status publish has succeeded, the payload
  of the latest successful status publish is the string of the current stable state.
\<close>

theorem clean_means_current_state_published:
  assumes "boot_run cfg h e0 es = Some s" and "\<not> dirty s" and "published (trace s) \<noteq> []"
  shows "last (published (trace s)) = statusString (lastStable s)"
proof -
  let ?I = "\<lambda>s. \<not> dirty s \<longrightarrow>
      published (trace s) = [] \<or> last (published (trace s)) = statusString (lastStable s)"
  from assms(1) obtain s0 where b: "setup_sketch cfg e0 h = Some s0" and r: "run cfg es s0 = Some s"
    by (rule boot_run_Some)
  have base: "?I s0"
    using setup_facts(4) [OF b] by simp
  have step: "?I s2" if i: "?I s1" and l: "loop cfg e (disturb e s1) = Some s2" for e s1 s2
  proof
    assume clean: "\<not> dirty s2"
    note f = tick_facts [OF l]
    show "published (trace s2) = [] \<or> last (published (trace s2)) = statusString (lastStable s2)"
    proof (cases "status_sent e (loop_debounce e (disturb e s1))")
      case True
      then show ?thesis
        using f(1,5) by (simp add: published_append)
    next
      case False
      with clean f(3) have nd: "\<not> dirty (loop_debounce e (disturb e s1))"
        by simp
      then have "\<not> dirty s1" and "lastStable (loop_debounce e (disturb e s1)) = lastStable s1"
        using debounce_dirty [of e "disturb e s1"] by (simp_all add: disturb_frame)
      with i f(1,2,5) False show ?thesis
        by (simp add: published_append disturb_frame)
    qed
  qed
  have "?I s"
    using r base step by (rule run_invariant)
  with assms(2,3) show ?thesis by simp
qed

theorem clean_means_current_state_published_witness:
  "\<not> dirty (the (boot_run demo_cfg radio_off (tick_at 1000 LOW)
        [tick_at 2000 HIGH, tick_at 2100 HIGH]))
   \<and> published (trace (the (boot_run demo_cfg radio_off (tick_at 1000 LOW)
        [tick_at 2000 HIGH, tick_at 2100 HIGH]))) = [''closed'', ''open'']
   \<and> lastStable (the (boot_run demo_cfg radio_off (tick_at 1000 LOW)
        [tick_at 2000 HIGH, tick_at 2100 HIGH]))
   \<and> last (published (trace (the (boot_run demo_cfg radio_off (tick_at 1000 LOW)
        [tick_at 2000 HIGH, tick_at 2100 HIGH])))) = ''open''"
proof -
  let ?r = "boot_run demo_cfg radio_off (tick_at 1000 LOW) [tick_at 2000 HIGH, tick_at 2100 HIGH]"
  obtain s where h: "?r = Some s"
    by (simp add: run_defs demo_defs eval_defs)
  have f: "\<not> dirty (the ?r) \<and> published (trace (the ?r)) = [''closed'', ''open'']
      \<and> lastStable (the ?r)"
    by (simp add: run_defs demo_defs eval_defs)
  from f h have "\<not> dirty s" and "published (trace s) \<noteq> []"
    by simp_all
  from clean_means_current_state_published [OF h this] f h show ?thesis
    by (simp add: statusString_def)
qed

end
